theory Spec2Isabelle
  imports Main "HOL-Library.Sublist" "HOL-Library.Multiset"
begin

section \<open>Python strings\<close>

text \<open>
  A Python \<open>str\<close> is a sequence of Unicode code points and \<open>len\<close> counts code points,
  so a string is a list of code-point numbers. \<open>ustr\<close> reads an ASCII literal of the
  source; the emoji of the section headers are written as their code points.
\<close>

type_synonym ustring = "nat list"

definition ustr :: "string \<Rightarrow> ustring" where
  "ustr s = map of_char s"

text \<open>
  \<open>str.isspace\<close>, which also decides what \<open>str.strip()\<close> removes and what \<open>\s\<close> matches
  in a \<open>str\<close> pattern: the code points CPython lists as white space.
\<close>

definition isspace :: "nat \<Rightarrow> bool" where
  "isspace c =
     ((9 \<le> c \<and> c \<le> 13) \<or> (28 \<le> c \<and> c \<le> 32) \<or> c = 133 \<or> c = 160 \<or> c = 5760
      \<or> (8192 \<le> c \<and> c \<le> 8202) \<or> c = 8232 \<or> c = 8233 \<or> c = 8239 \<or> c = 8287
      \<or> c = 12288)"

definition strip :: "ustring \<Rightarrow> ustring" where
  "strip s = rev (dropWhile isspace (rev (dropWhile isspace s)))"

section \<open>validate_input\<close>

definition valid_platforms :: "ustring list" where
  "valid_platforms =
     [ustr ''Instagram'', ustr ''Twitter/X'', ustr ''LinkedIn'', ustr ''Facebook'',
      ustr ''TikTok'', ustr ''YouTube'', ustr ''General'']"

definition valid_tones :: "ustring list" where
  "valid_tones =
     [ustr ''Professional'', ustr ''Casual'', ustr ''Inspiring'', ustr ''Educational'',
      ustr ''Humorous'', ustr ''Urgent'', ustr ''Friendly'']"

definition validate_input :: "ustring \<Rightarrow> ustring \<Rightarrow> ustring \<Rightarrow> bool \<times> ustring" where
  "validate_input topic platform tone =
     (if topic = [] \<or> strip topic = [] then (False, ustr ''Topic cannot be empty'')
      else if length (strip topic) < 3
        then (False, ustr ''Topic must be at least 3 characters long'')
      else if length (strip topic) > 500
        then (False, ustr ''Topic must be less than 500 characters'')
      else if platform \<notin> set valid_platforms then (False, ustr ''Invalid platform selected'')
      else if tone \<notin> set valid_tones then (False, ustr ''Invalid tone selected'')
      else (True, []))"

section \<open>The Unicode tables\<close>

text \<open>
  Two built-ins of the source consult CPython's Unicode database, which is not part of
  the repository: \<open>\w\<close> of the \<open>re\<close> module (alphanumeric code points and the underscore)
  and \<open>str.lower()\<close>. On ASCII both are written out below. Beyond ASCII the database is a
  parameter, so every theorem holds whatever it contains:
  \<^item> \<open>uni_alnum\<close>: \<open>str.isalnum\<close> of a code point from 128 on;
  \<^item> \<open>uni_lower\<close>: the full lower-case mapping of a code point from 128 on (one to three
    code points);
  \<^item> \<open>uni_final_sigma\<close>: whether the capital sigma at an index of a string is in
    word-final position, the one context-dependent case of \<open>str.lower()\<close>.
\<close>

record unicode_db =
  uni_alnum :: "nat \<Rightarrow> bool"
  uni_lower :: "nat \<Rightarrow> nat list"
  uni_final_sigma :: "nat list \<Rightarrow> nat \<Rightarrow> bool"

text \<open>The character class \<open>[a-zA-Z0-9_]\<close>.\<close>

definition ascii_word :: "nat \<Rightarrow> bool" where
  "ascii_word c =
     ((97 \<le> c \<and> c \<le> 122) \<or> (65 \<le> c \<and> c \<le> 90) \<or> (48 \<le> c \<and> c \<le> 57) \<or> c = 95)"

text \<open>The character class \<open>\w\<close> of a \<open>str\<close> pattern.\<close>

definition is_word :: "unicode_db \<Rightarrow> nat \<Rightarrow> bool" where
  "is_word U c = (if c < 128 then ascii_word c else uni_alnum U c)"

text \<open>\<open>str.lower()\<close>, code point by code point, as CPython's \<open>do_lower\<close> does it.\<close>

definition lower_ucs4 :: "unicode_db \<Rightarrow> ustring \<Rightarrow> nat \<Rightarrow> ustring" where
  "lower_ucs4 U s i =
     (let c = s ! i in
      if c = 931 then [if uni_final_sigma U s i then 962 else 963]
      else if c < 128 then [if 65 \<le> c \<and> c \<le> 90 then c + 32 else c]
      else uni_lower U c)"

definition lower :: "unicode_db \<Rightarrow> ustring \<Rightarrow> ustring" where
  "lower U s = concat (map (lower_ucs4 U s) [0..<length s])"

text \<open>
  A database without entries beyond ASCII (nothing there is alphanumeric or cased). It
  agrees with every database on ASCII strings and instantiates the parameter in closed
  statements.
\<close>

definition ascii_db :: unicode_db where
  "ascii_db = \<lparr>uni_alnum = (\<lambda>c. False), uni_lower = (\<lambda>c. [c]), uni_final_sigma = (\<lambda>s i. False)\<rparr>"

section \<open>String operations of the source\<close>

text \<open>\<open>s.startswith(p)\<close>, \<open>s.endswith(p)\<close> and \<open>h in s\<close>.\<close>

definition startswith :: "ustring \<Rightarrow> ustring \<Rightarrow> bool" where
  "startswith s p = (take (length p) s = p)"

definition endswith :: "ustring \<Rightarrow> ustring \<Rightarrow> bool" where
  "endswith s p = (length p \<le> length s \<and> drop (length s - length p) s = p)"

fun contains :: "ustring \<Rightarrow> ustring \<Rightarrow> bool" where
  "contains [] h = (h = [])"
| "contains (c # cs) h = (startswith (c # cs) h \<or> contains cs h)"

text \<open>\<open>s.split('\n')\<close> and \<open>'\n'.join(ls)\<close>; the line feed is code point 10.\<close>

fun split_nl :: "ustring \<Rightarrow> ustring list" where
  "split_nl [] = [[]]"
| "split_nl (c # cs) =
     (if c = 10 then [] # split_nl cs
      else (case split_nl cs of [] \<Rightarrow> [[c]] | l # ls \<Rightarrow> (c # l) # ls))"

fun join_nl :: "ustring list \<Rightarrow> ustring" where
  "join_nl [] = []"
| "join_nl [l] = l"
| "join_nl (l # ls) = l @ 10 # join_nl ls"

text \<open>
  \<open>s.split()\<close>: the maximal runs of non-space code points. \<open>cur\<close> is the run being
  read, reversed.
\<close>

fun split_ws_from :: "ustring \<Rightarrow> ustring \<Rightarrow> ustring list" where
  "split_ws_from cur [] = (if cur = [] then [] else [rev cur])"
| "split_ws_from cur (c # cs) =
     (if isspace c then (if cur = [] then split_ws_from [] cs else rev cur # split_ws_from [] cs)
      else split_ws_from (c # cur) cs)"

definition split_ws :: "ustring \<Rightarrow> ustring list" where
  "split_ws s = split_ws_from [] s"

text \<open>\<open>re.sub(r'[...]+', r, s)\<close> for a character class \<open>P\<close>: each maximal run becomes \<open>r\<close>.\<close>

function sub_runs :: "(nat \<Rightarrow> bool) \<Rightarrow> nat \<Rightarrow> ustring \<Rightarrow> ustring" where
  "sub_runs P r [] = []"
| "sub_runs P r (c # cs) =
     (if P c then r # sub_runs P r (dropWhile P cs) else c # sub_runs P r cs)"
  by pat_completeness auto
termination
  by (relation "measure (\<lambda>(P, r, s). length s)")
     (auto simp: length_dropWhile_le less_Suc_eq_le)

text \<open>\<open>str(n)\<close> for a non-negative integer, and zero padding to a width.\<close>

fun digits :: "nat \<Rightarrow> ustring" where
  "digits n = (if n < 10 then [48 + n] else digits (n div 10) @ [48 + n mod 10])"

definition zero_pad :: "nat \<Rightarrow> nat \<Rightarrow> ustring" where
  "zero_pad w n = replicate (w - length (digits n)) 48 @ digits n"

section \<open>clean_text\<close>

text \<open>
  The punctuation of the allow-list \<open>[^\w\s\-.,!?@#$%&*()+=\[\]{}:;"\'<>/\\|`~]\<close>; the
  double quote, the single quote, the backslash and the backtick are given as code points.
\<close>

definition allowed_punct :: "nat list" where
  "allowed_punct = ustr ''-.,!?@#$%&*()+=[]{}:;<>/|~'' @ [34, 39, 92, 96]"

definition allowed :: "unicode_db \<Rightarrow> nat \<Rightarrow> bool" where
  "allowed U c = (is_word U c \<or> isspace c \<or> c \<in> set allowed_punct)"

definition clean_text :: "unicode_db \<Rightarrow> ustring \<Rightarrow> ustring" where
  "clean_text U text =
     (if text = [] then []
      else filter (allowed U) (sub_runs isspace 32 (strip text)))"

section \<open>format_hashtags\<close>

text \<open>\<open>re.findall(r'#\w+', s)\<close>: leftmost matches, each as long as possible, not overlapping.\<close>

function findall_hashtag :: "unicode_db \<Rightarrow> ustring \<Rightarrow> ustring list" where
  "findall_hashtag U [] = []"
| "findall_hashtag U (c # cs) =
     (if c = 35 \<and> takeWhile (is_word U) cs \<noteq> []
      then (c # takeWhile (is_word U) cs) # findall_hashtag U (dropWhile (is_word U) cs)
      else findall_hashtag U cs)"
  by pat_completeness auto
termination
  by (relation "measure (\<lambda>(U, s). length s)")
     (auto simp: length_dropWhile_le less_Suc_eq_le)

text \<open>The loop over the matches, appending to \<open>formatted\<close>.\<close>

fun formatted :: "ustring list \<Rightarrow> ustring list" where
  "formatted [] = []"
| "formatted (tag # tags) =
     (let clean_tag = filter ascii_word (filter (\<lambda>c. c \<noteq> 35) tag) in
      if clean_tag \<noteq> [] \<and> length clean_tag > 1 then (35 # clean_tag) # formatted tags
      else formatted tags)"

text \<open>
  \<open>list(set(xs))\<close> lists each element of \<open>xs\<close> once, in an order the language does not
  fix: \<open>out\<close> is a result when it is a rearrangement of \<open>xs\<close> without its repetitions.
\<close>

definition list_of_set :: "'a list \<Rightarrow> 'a list \<Rightarrow> bool" where
  "list_of_set xs out = (mset out = mset (remdups xs))"

text \<open>\<open>format_hashtags U hashtags out\<close>: the call may return the list \<open>out\<close>.\<close>

definition format_hashtags :: "unicode_db \<Rightarrow> ustring \<Rightarrow> ustring list \<Rightarrow> bool" where
  "format_hashtags U hashtags out =
     (if hashtags = [] then out = []
      else list_of_set (formatted (findall_hashtag U hashtags)) out)"

section \<open>parse_agent_response\<close>

datatype section_key = Summary | Content | Hashtags | Visual_concepts | Analytics | Trends

type_synonym sections = "section_key \<Rightarrow> ustring"

definition summary_headers :: "ustring list" where
  "summary_headers =
     [128202 # ustr '' content package'', ustr ''content package summary'', ustr ''## '' @ [128202]]"

definition content_headers :: "ustring list" where
  "content_headers = [128221 # ustr '' content'', ustr ''## '' @ [128221], ustr ''post content'']"

definition hashtags_headers :: "ustring list" where
  "hashtags_headers =
     [[127991, 65039] @ ustr '' hashtag'', ustr ''hashtag strategy'', ustr ''## '' @ [127991, 65039]]"

definition visual_headers :: "ustring list" where
  "visual_headers = [127912 # ustr '' visual'', ustr ''visual concept'', ustr ''## '' @ [127912]]"

definition analytics_headers :: "ustring list" where
  "analytics_headers =
     [128200 # ustr '' performance'', ustr ''analytics'', ustr ''insights'', ustr ''## '' @ [128200]]"

definition trends_headers :: "ustring list" where
  "trends_headers = [128293 # ustr '' trend'', ustr ''trending element'', ustr ''## '' @ [128293]]"

text \<open>The \<open>if\<close>/\<open>elif\<close> chain over the lower-cased line: the section whose header it holds.\<close>

definition header_of :: "ustring \<Rightarrow> section_key option" where
  "header_of line_lower =
     (if list_ex (contains line_lower) summary_headers then Some Summary
      else if list_ex (contains line_lower) content_headers then Some Content
      else if list_ex (contains line_lower) hashtags_headers then Some Hashtags
      else if list_ex (contains line_lower) visual_headers then Some Visual_concepts
      else if list_ex (contains line_lower) analytics_headers then Some Analytics
      else if list_ex (contains line_lower) trends_headers then Some Trends
      else None)"

text \<open>One turn of the loop over the lines: the state is \<open>(current_section, sections)\<close>.\<close>

definition parse_line :: "unicode_db \<Rightarrow> section_key \<times> sections \<Rightarrow> ustring \<Rightarrow> section_key \<times> sections" where
  "parse_line U st raw =
     (let line = strip raw; current_section = fst st; secs = snd st in
      if line = [] then st
      else (case header_of (lower U line) of
              Some sec \<Rightarrow> (sec, secs)
            | None \<Rightarrow>
                if (\<not> startswith line (ustr ''##'') \<and> \<not> startswith line (ustr ''**''))
                   \<or> current_section = Content
                then (if current_section = Content \<and> startswith line (ustr ''##'') then st
                      else (current_section,
                            secs(current_section := secs current_section @ line @ [10])))
                else st))"

text \<open>The second pass over the content section.\<close>

definition keep_content_line :: "ustring \<Rightarrow> bool" where
  "keep_content_line line =
     (\<not> startswith line (ustr ''##'')
      \<and> \<not> (startswith line (ustr ''**'') \<and> endswith line (ustr ''**'')
            \<and> length (split_ws line) \<le> 3))"

definition clean_section :: "section_key \<Rightarrow> ustring \<Rightarrow> ustring" where
  "clean_section key s =
     (let t = strip s in
      if key = Content \<and> t \<noteq> []
      then strip (join_nl (filter keep_content_line (map strip (split_nl t))))
      else t)"

definition parse_agent_response :: "unicode_db \<Rightarrow> ustring \<Rightarrow> sections" where
  "parse_agent_response U response =
     (let secs = snd (foldl (parse_line U) (Summary, (\<lambda>key. [])) (split_nl response))
      in (\<lambda>key. clean_section key (secs key)))"

section \<open>create_download_filename\<close>

text \<open>
  \<open>datetime.now()\<close> is the clock's reading, an input of the model.
  \<open>strftime("%Y%m%d_%H%M%S")\<close> pads each field with zeros to its width.
\<close>

record datetime =
  year :: nat
  month :: nat
  day :: nat
  hour :: nat
  minute :: nat
  second :: nat

definition strftime :: "datetime \<Rightarrow> ustring" where
  "strftime t =
     zero_pad 4 (year t) @ zero_pad 2 (month t) @ zero_pad 2 (day t) @ ustr ''_''
     @ zero_pad 2 (hour t) @ zero_pad 2 (minute t) @ zero_pad 2 (second t)"

definition safe_topic :: "unicode_db \<Rightarrow> ustring \<Rightarrow> ustring" where
  "safe_topic U topic =
     take 30 (sub_runs (\<lambda>c. c = 45 \<or> isspace c) 45
                (strip (filter (\<lambda>c. is_word U c \<or> isspace c \<or> c = 45) topic)))"

definition safe_platform :: "unicode_db \<Rightarrow> ustring \<Rightarrow> ustring" where
  "safe_platform U platform = lower U (map (\<lambda>c. if c = 47 then 95 else c) platform)"

definition create_download_filename ::
  "unicode_db \<Rightarrow> datetime \<Rightarrow> ustring \<Rightarrow> ustring \<Rightarrow> ustring \<Rightarrow> ustring" where
  "create_download_filename U now topic platform file_type =
     ustr ''social_media_'' @ safe_topic U topic @ ustr ''_'' @ safe_platform U platform
     @ ustr ''_'' @ strftime now @ ustr ''.'' @ file_type"

section \<open>get_platform_limits and validate_content_length\<close>

definition general_limits :: "(ustring \<times> nat) list" where
  "general_limits = [(ustr ''post'', 2000), (ustr ''bio'', 150), (ustr ''hashtags'', 10)]"

definition limits :: "(ustring \<times> (ustring \<times> nat) list) list" where
  "limits =
     [(ustr ''Instagram'', [(ustr ''caption'', 2200), (ustr ''bio'', 150), (ustr ''hashtags'', 30)]),
      (ustr ''Twitter/X'', [(ustr ''post'', 280), (ustr ''bio'', 160), (ustr ''hashtags'', 2)]),
      (ustr ''LinkedIn'', [(ustr ''post'', 3000), (ustr ''headline'', 220), (ustr ''hashtags'', 5)]),
      (ustr ''Facebook'', [(ustr ''post'', 63206), (ustr ''bio'', 101), (ustr ''hashtags'', 30)]),
      (ustr ''TikTok'', [(ustr ''caption'', 2200), (ustr ''bio'', 80), (ustr ''hashtags'', 5)]),
      (ustr ''YouTube'', [(ustr ''description'', 5000), (ustr ''title'', 100), (ustr ''hashtags'', 15)]),
      (ustr ''General'', general_limits)]"

text \<open>
  \<open>limits.get(platform, limits["General"])\<close>; the key \<open>"General"\<close> is in the table
  (\<open>limits_General\<close> below), so the indexing does not raise.
\<close>

definition get_platform_limits :: "ustring \<Rightarrow> (ustring \<times> nat) list" where
  "get_platform_limits platform =
     (case map_of limits platform of Some row \<Rightarrow> row | None \<Rightarrow> general_limits)"

definition validate_content_length :: "ustring \<Rightarrow> ustring \<Rightarrow> ustring \<Rightarrow> bool \<times> ustring" where
  "validate_content_length content platform content_type =
     (let lims = get_platform_limits platform;
          limit = (case map_of lims content_type of Some l \<Rightarrow> l | None \<Rightarrow> 2000);
          content_length = length content
      in if content_length > limit
         then (False, ustr ''Content exceeds '' @ platform @ ustr '' '' @ content_type
                      @ ustr '' limit of '' @ digits limit @ ustr '' characters (''
                      @ digits content_length @ ustr ''/'' @ digits limit @ ustr '')'')
         else (True, ustr ''Content length OK ('' @ digits content_length @ ustr ''/''
                     @ digits limit @ ustr '' characters)''))"

section \<open>Notions used in the proofs\<close>

text \<open>
  A line as the loop accumulates it: not empty, no white space at either end, no line feed
  inside. \<open>accumulated ls\<close> is the text of a section after the lines \<open>ls\<close> were added to
  it in turn, and \<open>line_ok key\<close> is what the loop lets into the section \<open>key\<close>.
\<close>

definition trimmed :: "ustring \<Rightarrow> bool" where
  "trimmed l = (l \<noteq> [] \<and> \<not> isspace (hd l) \<and> \<not> isspace (last l) \<and> 10 \<notin> set l)"

definition accumulated :: "ustring list \<Rightarrow> ustring" where
  "accumulated ls = concat (map (\<lambda>l. l @ [10]) ls)"

definition line_ok :: "section_key \<Rightarrow> ustring \<Rightarrow> bool" where
  "line_ok key l =
     (trimmed l \<and> \<not> startswith l (ustr ''##'')
      \<and> (key = Content \<or> \<not> startswith l (ustr ''**'')))"

section \<open>Facts about strip\<close>

lemma strip_Nil [simp]: "strip [] = []"
  by (simp add: strip_def)

lemma strip_eq_Nil_iff: "strip s = [] \<longleftrightarrow> list_all isspace s"
proof
  assume a: "strip s = []"
  show "list_all isspace s"
  proof (rule ccontr)
    assume "\<not> list_all isspace s"
    then have ne: "dropWhile isspace s \<noteq> []"
      by (metis dropWhile_eq_Nil_conv list_all_iff)
    then have "\<not> isspace (hd (dropWhile isspace s))"
      by (rule hd_dropWhile)
    moreover from a have "\<forall>x\<in>set (dropWhile isspace s). isspace x"
      by (simp add: strip_def dropWhile_eq_Nil_conv)
    ultimately show False
      using ne hd_in_set by blast
  qed
next
  assume "list_all isspace s"
  then have d: "dropWhile isspace s = []"
    by (metis dropWhile_eq_Nil_conv list_all_iff)
  show "strip s = []"
    unfolding strip_def d by simp
qed

section \<open>Input validation\<close>

text \<open>
  Claim C4. \<open>validate_input\<close> returns a pair for every three strings and raises nothing.
  The checks are made in this order and the first that fails decides: a topic that is empty
  or all white space gives "Topic cannot be empty"; a trimmed topic shorter than 3 gives
  "Topic must be at least 3 characters long"; longer than 500, "Topic must be less than 500
  characters"; a platform outside the seven names, "Invalid platform selected"; a tone
  outside the seven names, "Invalid tone selected"; otherwise the result is \<open>(True, "")\<close>.
\<close>

theorem validate_input_order:
  fixes topic platform tone :: ustring
  defines "n \<equiv> length (strip topic)"
  defines "platform_ok \<equiv> platform \<in> {ustr ''Instagram'', ustr ''Twitter/X'', ustr ''LinkedIn'',
             ustr ''Facebook'', ustr ''TikTok'', ustr ''YouTube'', ustr ''General''}"
  defines "tone_ok \<equiv> tone \<in> {ustr ''Professional'', ustr ''Casual'', ustr ''Inspiring'',
             ustr ''Educational'', ustr ''Humorous'', ustr ''Urgent'', ustr ''Friendly''}"
  shows "(list_all isspace topic \<longrightarrow>
            validate_input topic platform tone = (False, ustr ''Topic cannot be empty''))
       \<and> (\<not> list_all isspace topic \<and> n < 3 \<longrightarrow>
            validate_input topic platform tone = (False, ustr ''Topic must be at least 3 characters long''))
       \<and> (500 < n \<longrightarrow>
            validate_input topic platform tone = (False, ustr ''Topic must be less than 500 characters''))
       \<and> (3 \<le> n \<and> n \<le> 500 \<and> \<not> platform_ok \<longrightarrow>
            validate_input topic platform tone = (False, ustr ''Invalid platform selected''))
       \<and> (3 \<le> n \<and> n \<le> 500 \<and> platform_ok \<and> \<not> tone_ok \<longrightarrow>
            validate_input topic platform tone = (False, ustr ''Invalid tone selected''))
       \<and> (3 \<le> n \<and> n \<le> 500 \<and> platform_ok \<and> tone_ok \<longrightarrow>
            validate_input topic platform tone = (True, []))"
proof -
  have e: "strip topic = [] \<longleftrightarrow> list_all isspace topic"
    by (rule strip_eq_Nil_iff)
  have t: "topic = [] \<Longrightarrow> list_all isspace topic"
    by simp
  have n0: "list_all isspace topic \<Longrightarrow> n = 0"
    using e by (simp add: n_def)
  have p: "platform \<in> set valid_platforms \<longleftrightarrow> platform_ok"
    by (simp add: valid_platforms_def platform_ok_def)
  have q: "tone \<in> set valid_tones \<longleftrightarrow> tone_ok"
    by (simp add: valid_tones_def tone_ok_def)
  show ?thesis
    using e t n0 unfolding validate_input_def p q n_def [symmetric]
    by auto
qed


text \<open>The six outcomes, each at an input of its own.\<close>

theorem validate_input_order_witness:
  "validate_input (ustr '' '') (ustr ''Instagram'') (ustr ''Casual'') = (False, ustr ''Topic cannot be empty'')
   \<and> validate_input (ustr '' ab '') (ustr ''Instagram'') (ustr ''Casual'')
       = (False, ustr ''Topic must be at least 3 characters long'')
   \<and> validate_input (replicate 501 97) (ustr ''Instagram'') (ustr ''Casual'')
       = (False, ustr ''Topic must be less than 500 characters'')
   \<and> validate_input (ustr ''cats'') (ustr ''Myspace'') (ustr ''Casual'')
       = (False, ustr ''Invalid platform selected'')
   \<and> validate_input (ustr ''cats'') (ustr ''Twitter/X'') (ustr ''Angry'')
       = (False, ustr ''Invalid tone selected'')
   \<and> validate_input (ustr '' cats '') (ustr ''Twitter/X'') (ustr ''Urgent'') = (True, [])"
proof -
  have s1: "strip (ustr '' '') = []" "strip (ustr '' ab '') = ustr ''ab''"
    "strip (ustr ''cats'') = ustr ''cats''" "strip (ustr '' cats '') = ustr ''cats''"
    by (simp_all add: strip_def ustr_def isspace_def)
  have s2: "strip (replicate 501 97) = replicate 501 97"
    by (simp add: strip_def isspace_def dropWhile_replicate)
  show ?thesis
    using validate_input_order [of "ustr '' ''" "ustr ''Instagram''" "ustr ''Casual''"]
      validate_input_order [of "ustr '' ab ''" "ustr ''Instagram''" "ustr ''Casual''"]
      validate_input_order [of "replicate 501 97" "ustr ''Instagram''" "ustr ''Casual''"]
      validate_input_order [of "ustr ''cats''" "ustr ''Myspace''" "ustr ''Casual''"]
      validate_input_order [of "ustr ''cats''" "ustr ''Twitter/X''" "ustr ''Angry''"]
      validate_input_order [of "ustr '' cats ''" "ustr ''Twitter/X''" "ustr ''Urgent''"]
    unfolding s1 s2 by (simp add: ustr_def isspace_def)
qed

section \<open>Platform limits\<close>

lemma limits_General: "map_of limits (ustr ''General'') = Some general_limits"
  by (simp add: limits_def ustr_def)

lemma digits_300: "digits 300 = ustr ''300''"
  by (simp add: ustr_def)

lemma digits_280: "digits 280 = ustr ''280''"
  by (simp add: ustr_def)

lemma get_platform_limits_rows:
  "get_platform_limits (ustr ''Instagram'')
     = [(ustr ''caption'', 2200), (ustr ''bio'', 150), (ustr ''hashtags'', 30)]"
  "get_platform_limits (ustr ''Twitter/X'')
     = [(ustr ''post'', 280), (ustr ''bio'', 160), (ustr ''hashtags'', 2)]"
  "get_platform_limits (ustr ''LinkedIn'')
     = [(ustr ''post'', 3000), (ustr ''headline'', 220), (ustr ''hashtags'', 5)]"
  "get_platform_limits (ustr ''Facebook'')
     = [(ustr ''post'', 63206), (ustr ''bio'', 101), (ustr ''hashtags'', 30)]"
  "get_platform_limits (ustr ''TikTok'')
     = [(ustr ''caption'', 2200), (ustr ''bio'', 80), (ustr ''hashtags'', 5)]"
  "get_platform_limits (ustr ''YouTube'')
     = [(ustr ''description'', 5000), (ustr ''title'', 100), (ustr ''hashtags'', 15)]"
  "get_platform_limits (ustr ''General'')
     = [(ustr ''post'', 2000), (ustr ''bio'', 150), (ustr ''hashtags'', 10)]"
  by (simp_all add: get_platform_limits_def limits_def general_limits_def ustr_def)

lemma get_platform_limits_unknown:
  "platform \<notin> {ustr ''Instagram'', ustr ''Twitter/X'', ustr ''LinkedIn'', ustr ''Facebook'',
      ustr ''TikTok'', ustr ''YouTube'', ustr ''General''}
   \<Longrightarrow> get_platform_limits platform
     = [(ustr ''post'', 2000), (ustr ''bio'', 150), (ustr ''hashtags'', 10)]"
  by (simp add: get_platform_limits_def limits_def general_limits_def)

lemma validate_content_length_twitter:
  "validate_content_length (replicate 300 97) (ustr ''Twitter/X'') (ustr ''post'')
     = (False, ustr ''Content exceeds Twitter/X post limit of 280 characters (300/280)'')"
proof -
  have p: "map_of [(ustr ''post'', 280), (ustr ''bio'', 160), (ustr ''hashtags'', 2::nat)]
             (ustr ''post'') = Some 280"
    by simp
  show ?thesis
    unfolding validate_content_length_def Let_def get_platform_limits_rows p
    by (simp add: digits_300 digits_280 del: digits.simps) (simp add: ustr_def)
qed

text \<open>
  Claim C5. \<open>get_platform_limits\<close> returns the row of the table for each of the seven
  platform names and the row of "General" for every other string.
  \<open>validate_content_length\<close> is valid exactly when the number of code points of the content
  is at most the limit, which is the entry of the content type in that row and 2000 when the
  row has no such entry; the message gives length and limit as \<open>length/limit\<close> in both
  cases. 300 letters against the 280 of a Twitter/X post are refused, with 300/280 in the
  message.
\<close>

theorem validate_content_length_table:
  fixes content platform content_type :: ustring
  defines "limit \<equiv> (case map_of (get_platform_limits platform) content_type of
                      Some l \<Rightarrow> l | None \<Rightarrow> 2000)"
  defines "n \<equiv> length content"
  shows "get_platform_limits (ustr ''Instagram'')
           = [(ustr ''caption'', 2200), (ustr ''bio'', 150), (ustr ''hashtags'', 30)]
    \<and> get_platform_limits (ustr ''Twitter/X'')
           = [(ustr ''post'', 280), (ustr ''bio'', 160), (ustr ''hashtags'', 2)]
    \<and> get_platform_limits (ustr ''LinkedIn'')
           = [(ustr ''post'', 3000), (ustr ''headline'', 220), (ustr ''hashtags'', 5)]
    \<and> get_platform_limits (ustr ''Facebook'')
           = [(ustr ''post'', 63206), (ustr ''bio'', 101), (ustr ''hashtags'', 30)]
    \<and> get_platform_limits (ustr ''TikTok'')
           = [(ustr ''caption'', 2200), (ustr ''bio'', 80), (ustr ''hashtags'', 5)]
    \<and> get_platform_limits (ustr ''YouTube'')
           = [(ustr ''description'', 5000), (ustr ''title'', 100), (ustr ''hashtags'', 15)]
    \<and> get_platform_limits (ustr ''General'')
           = [(ustr ''post'', 2000), (ustr ''bio'', 150), (ustr ''hashtags'', 10)]
    \<and> (platform \<notin> {ustr ''Instagram'', ustr ''Twitter/X'', ustr ''LinkedIn'', ustr ''Facebook'',
            ustr ''TikTok'', ustr ''YouTube'', ustr ''General''}
         \<longrightarrow> get_platform_limits platform
           = [(ustr ''post'', 2000), (ustr ''bio'', 150), (ustr ''hashtags'', 10)])
    \<and> fst (validate_content_length content platform content_type) = (n \<le> limit)
    \<and> (n \<le> limit \<longrightarrow> snd (validate_content_length content platform content_type)
           = ustr ''Content length OK ('' @ digits n @ ustr ''/'' @ digits limit
             @ ustr '' characters)'')
    \<and> (limit < n \<longrightarrow> snd (validate_content_length content platform content_type)
           = ustr ''Content exceeds '' @ platform @ ustr '' '' @ content_type
             @ ustr '' limit of '' @ digits limit @ ustr '' characters ('' @ digits n
             @ ustr ''/'' @ digits limit @ ustr '')'')
    \<and> validate_content_length (replicate 300 97) (ustr ''Twitter/X'') (ustr ''post'')
           = (False, ustr ''Content exceeds Twitter/X post limit of 280 characters (300/280)'')"
proof -
  have f: "fst (validate_content_length content platform content_type) = (n \<le> limit)"
    by (auto simp: validate_content_length_def Let_def limit_def n_def)
  have ok: "n \<le> limit \<Longrightarrow> snd (validate_content_length content platform content_type)
           = ustr ''Content length OK ('' @ digits n @ ustr ''/'' @ digits limit
             @ ustr '' characters)''"
    by (auto simp: validate_content_length_def Let_def limit_def n_def)
  have ex: "limit < n \<Longrightarrow> snd (validate_content_length content platform content_type)
           = ustr ''Content exceeds '' @ platform @ ustr '' '' @ content_type
             @ ustr '' limit of '' @ digits limit @ ustr '' characters ('' @ digits n
             @ ustr ''/'' @ digits limit @ ustr '')''"
    by (auto simp: validate_content_length_def Let_def limit_def n_def)
  show ?thesis
    using get_platform_limits_rows get_platform_limits_unknown [of platform]
      validate_content_length_twitter f ok ex
    by blast
qed

text \<open>
  An unknown platform, a known platform with a key of its row, a content over its limit, and
  a content type absent from the row.
\<close>

theorem validate_content_length_table_witness:
  "validate_content_length (ustr ''hello'') (ustr ''Mastodon'') (ustr ''bio'')
     = (True, ustr ''Content length OK (5/150 characters)'')
   \<and> validate_content_length (ustr ''hello world'') (ustr ''Instagram'') (ustr ''hashtags'')
     = (True, ustr ''Content length OK (11/30 characters)'')
   \<and> validate_content_length (ustr ''hello'') (ustr ''Twitter/X'') (ustr ''hashtags'')
     = (False, ustr ''Content exceeds Twitter/X hashtags limit of 2 characters (5/2)'')
   \<and> validate_content_length (ustr ''hello'') (ustr ''Instagram'') (ustr ''post'')
     = (True, ustr ''Content length OK (5/2000 characters)'')"
proof -
  have d: "digits 5 = ustr ''5''" "digits 150 = ustr ''150''" "digits 11 = ustr ''11''"
    "digits 30 = ustr ''30''" "digits 2 = ustr ''2''" "digits 2000 = ustr ''2000''"
    by (simp_all add: ustr_def)
  have m: "get_platform_limits (ustr ''Mastodon'')
     = [(ustr ''post'', 2000), (ustr ''bio'', 150), (ustr ''hashtags'', 10)]"
    using validate_content_length_table [where platform = "ustr ''Mastodon''"] by (simp add: ustr_def)
  have l: "length (ustr ''hello'') = 5" "length (ustr ''hello world'') = 11"
    by (simp_all add: ustr_def)
  have k: "map_of [(ustr ''post'', 2000), (ustr ''bio'', 150), (ustr ''hashtags'', 10::nat)] (ustr ''bio'') = Some 150"
    "map_of [(ustr ''caption'', 2200), (ustr ''bio'', 150), (ustr ''hashtags'', 30::nat)] (ustr ''hashtags'') = Some 30"
    "map_of [(ustr ''post'', 280), (ustr ''bio'', 160), (ustr ''hashtags'', 2::nat)] (ustr ''hashtags'') = Some 2"
    "map_of [(ustr ''caption'', 2200), (ustr ''bio'', 150), (ustr ''hashtags'', 30::nat)] (ustr ''post'') = None"
    by (simp_all add: ustr_def)
  show ?thesis
    using validate_content_length_table [where content = "ustr ''hello''" and platform = "ustr ''Mastodon''" and content_type = "ustr ''bio''"]
      validate_content_length_table [where content = "ustr ''hello world''" and platform = "ustr ''Instagram''" and content_type = "ustr ''hashtags''"]
      validate_content_length_table [where content = "ustr ''hello''" and platform = "ustr ''Twitter/X''" and content_type = "ustr ''hashtags''"]
      validate_content_length_table [where content = "ustr ''hello''" and platform = "ustr ''Instagram''" and content_type = "ustr ''post''"]
    unfolding m get_platform_limits_rows l k d option.case
    by (simp add: prod_eq_iff del: digits.simps) (simp add: ustr_def)
qed

section \<open>Trimmed strings\<close>

lemma dropWhile_hd_id: "s \<noteq> [] \<Longrightarrow> \<not> P (hd s) \<Longrightarrow> dropWhile P s = s"
  by (cases s) simp_all

lemma strip_id: "s \<noteq> [] \<Longrightarrow> \<not> isspace (hd s) \<Longrightarrow> \<not> isspace (last s) \<Longrightarrow> strip s = s"
  by (simp add: strip_def dropWhile_hd_id hd_rev)

lemma last_dropWhile_eq: "dropWhile P xs \<noteq> [] \<Longrightarrow> last (dropWhile P xs) = last xs"
proof -
  assume a: "dropWhile P xs \<noteq> []"
  have "last xs = last (takeWhile P xs @ dropWhile P xs)"
    by simp
  also have "\<dots> = last (dropWhile P xs)"
    using a by (rule last_appendR)
  finally show ?thesis by simp
qed

lemma strip_ends:
  assumes "strip s \<noteq> []"
  shows "\<not> isspace (hd (strip s))" and "\<not> isspace (last (strip s))"
proof -
  let ?t = "dropWhile isspace s"
  let ?u = "dropWhile isspace (rev ?t)"
  from assms have u: "?u \<noteq> []"
    by (simp add: strip_def)
  then have t: "?t \<noteq> []"
    by (metis dropWhile.simps(1) rev.simps(1))
  have "hd (strip s) = last ?u"
    using u by (simp add: strip_def hd_rev)
  also have "\<dots> = last (rev ?t)"
    using u by (rule last_dropWhile_eq)
  also have "\<dots> = hd ?t"
    using t by (simp add: last_rev)
  finally show "\<not> isspace (hd (strip s))"
    using hd_dropWhile [OF t] by simp
  have "last (strip s) = hd ?u"
    using u by (simp add: strip_def last_rev)
  then show "\<not> isspace (last (strip s))"
    using hd_dropWhile [OF u] by simp
qed

lemma set_strip: "set (strip s) \<subseteq> set s"
proof
  fix x assume "x \<in> set (strip s)"
  then have "x \<in> set (dropWhile isspace (rev (dropWhile isspace s)))"
    by (simp add: strip_def)
  then have "x \<in> set (rev (dropWhile isspace s))"
    by (rule set_dropWhileD)
  then show "x \<in> set s"
    by (auto dest: set_dropWhileD)
qed

lemma strip_strip: "strip (strip s) = strip s"
proof (cases "strip s = []")
  case True
  then show ?thesis by simp
next
  case False
  then show ?thesis
    by (simp add: strip_id strip_ends)
qed

lemma isspace_nl: "isspace 10"
  by (simp add: isspace_def)

lemma strip_snoc_nl:
  assumes "x \<noteq> []" and "\<not> isspace (hd x)" and "\<not> isspace (last x)"
  shows "strip (x @ [10]) = x"
proof -
  have "dropWhile isspace (x @ [10]) = x @ [10]"
    using assms by (simp add: dropWhile_hd_id)
  moreover have "dropWhile isspace (rev (x @ [10])) = rev x"
    using assms by (simp add: isspace_nl dropWhile_hd_id hd_rev)
  ultimately show ?thesis
    by (simp add: strip_def)
qed

subsection \<open>Joining and splitting lines\<close>

lemma join_nl_Cons: "ls \<noteq> [] \<Longrightarrow> join_nl (l # ls) = l @ 10 # join_nl ls"
  by (cases ls) simp_all

lemma concat_lines: "ls \<noteq> [] \<Longrightarrow> concat (map (\<lambda>l. l @ [10]) ls) = join_nl ls @ [10]"
  by (induction ls rule: join_nl.induct) simp_all

lemma join_nl_ne: "ls \<noteq> [] \<Longrightarrow> list_all (\<lambda>l. l \<noteq> []) ls \<Longrightarrow> join_nl ls \<noteq> []"
  by (induction ls rule: join_nl.induct) simp_all

lemma hd_join_nl: "ls \<noteq> [] \<Longrightarrow> hd ls \<noteq> [] \<Longrightarrow> hd (join_nl ls) = hd (hd ls)"
  by (induction ls rule: join_nl.induct) simp_all

lemma last_join_nl:
  "ls \<noteq> [] \<Longrightarrow> list_all (\<lambda>l. l \<noteq> []) ls \<Longrightarrow> last (join_nl ls) = last (last ls)"
proof (induction ls rule: join_nl.induct)
  case (3 l v va)
  then have "join_nl (v # va) \<noteq> []"
    by (simp add: join_nl_ne)
  with 3 show ?case
    by simp
qed simp_all

lemma split_nl_ne: "split_nl s \<noteq> []"
  by (induction s) (auto split: list.splits)

lemma split_nl_line: "10 \<notin> set l \<Longrightarrow> split_nl l = [l]"
  by (induction l) auto

lemma split_nl_append: "10 \<notin> set l \<Longrightarrow> split_nl (l @ 10 # rest) = l # split_nl rest"
  by (induction l) auto

lemma split_join_nl:
  "ls \<noteq> [] \<Longrightarrow> list_all (\<lambda>l. 10 \<notin> set l) ls \<Longrightarrow> split_nl (join_nl ls) = ls"
  by (induction ls rule: join_nl.induct) (simp_all add: split_nl_line split_nl_append)

lemma split_nl_no_nl: "list_all (\<lambda>l. 10 \<notin> set l) (split_nl s)"
  by (induction s) (auto split: list.splits)

section \<open>Lower-casing without a capital sigma\<close>

lemma lower_no_sigma:
  assumes "931 \<notin> set s"
  shows "lower U s
    = concat (map (\<lambda>c. if c < 128 then [if 65 \<le> c \<and> c \<le> 90 then c + 32 else c]
                          else uni_lower U c) s)"
proof -
  have ns: "\<forall>i<length s. s ! i \<noteq> 931"
    using assms by (metis nth_mem)
  have "map (lower_ucs4 U s) [0..<length s]
      = map (\<lambda>i. (\<lambda>c. if c < 128 then [if 65 \<le> c \<and> c \<le> 90 then c + 32 else c]
                          else uni_lower U c) (s ! i)) [0..<length s]"
    using ns by (simp add: lower_ucs4_def Let_def)
  also have "\<dots> = map (\<lambda>c. if c < 128 then [if 65 \<le> c \<and> c \<le> 90 then c + 32 else c]
                          else uni_lower U c) (map ((!) s) [0..<length s])"
    by simp
  finally show ?thesis
    by (simp add: lower_def map_nth)
qed

section \<open>The sections are lists of accepted lines\<close>

lemma trimmed_strip: "10 \<notin> set raw \<Longrightarrow> strip raw \<noteq> [] \<Longrightarrow> trimmed (strip raw)"
  using set_strip [of raw] by (auto simp: trimmed_def strip_ends)

lemma strip_trimmed: "trimmed l \<Longrightarrow> strip l = l"
  by (simp add: trimmed_def strip_id)

lemma accumulated_snoc: "accumulated (ls @ [l]) = accumulated ls @ l @ [10]"
  by (simp add: accumulated_def)

lemma accumulated_Nil: "accumulated [] = []"
  by (simp add: accumulated_def)

lemma parse_line_cases:
  "parse_line U (cur, secs) raw = (cur', secs') \<Longrightarrow>
     secs' = secs \<or> (secs' = secs(cur := secs cur @ strip raw @ [10]) \<and> strip raw \<noteq> []
        \<and> \<not> startswith (strip raw) (ustr ''##'')
        \<and> (cur = Content \<or> \<not> startswith (strip raw) (ustr ''**'')))"
  by (auto simp: parse_line_def Let_def split: if_splits option.splits)

lemma parse_line_inv:
  assumes inv: "\<And>key. \<exists>ls. secs key = accumulated ls \<and> list_all (line_ok key) ls"
    and raw: "10 \<notin> set raw"
  shows "\<exists>ls. snd (parse_line U (cur, secs) raw) key = accumulated ls \<and> list_all (line_ok key) ls"
proof -
  obtain cur' secs' where p: "parse_line U (cur, secs) raw = (cur', secs')"
    by (cases "parse_line U (cur, secs) raw")
  from parse_line_cases [OF p] show ?thesis
  proof
    assume "secs' = secs"
    with p inv show ?thesis by simp
  next
    assume a: "secs' = secs(cur := secs cur @ strip raw @ [10]) \<and> strip raw \<noteq> []
        \<and> \<not> startswith (strip raw) (ustr ''##'')
        \<and> (cur = Content \<or> \<not> startswith (strip raw) (ustr ''**''))"
    show ?thesis
    proof (cases "key = cur")
      case False
      with a p inv show ?thesis by simp
    next
      case True
      from inv obtain ls where ls: "secs cur = accumulated ls" "list_all (line_ok cur) ls"
        by blast
      from a raw have "line_ok cur (strip raw)"
        by (simp add: line_ok_def trimmed_strip)
      with ls have "secs' cur = accumulated (ls @ [strip raw])" "list_all (line_ok cur) (ls @ [strip raw])"
        using a by (simp_all add: accumulated_snoc)
      with True p show ?thesis
        by (metis snd_conv)
    qed
  qed
qed

lemma foldl_parse_line_inv:
  assumes "\<And>key. \<exists>ls. snd st key = accumulated ls \<and> list_all (line_ok key) ls"
    and "list_all (\<lambda>l. 10 \<notin> set l) raws"
  shows "\<exists>ls. snd (foldl (parse_line U) st raws) key = accumulated ls \<and> list_all (line_ok key) ls"
  using assms
proof (induction raws arbitrary: st key)
  case Nil
  then show ?case by simp
next
  case (Cons raw raws)
  have "\<And>k. \<exists>ls. snd (parse_line U st raw) k = accumulated ls \<and> list_all (line_ok k) ls"
    using parse_line_inv [of "snd st" raw U "fst st"] Cons.prems by simp
  then show ?case
    using Cons.IH [of "parse_line U st raw" key] Cons.prems(2) by simp
qed

lemma strip_accumulated:
  assumes "list_all trimmed ls"
  shows "strip (accumulated ls) = join_nl ls"
proof (cases "ls = []")
  case True
  then show ?thesis by (simp add: accumulated_def)
next
  case False
  from assms have ne: "list_all (\<lambda>l. l \<noteq> []) ls"
    by (simp add: list_all_iff trimmed_def)
  from False assms have "trimmed (hd ls)" "trimmed (last ls)"
    by (simp_all add: list_all_iff)
  then have "\<not> isspace (hd (join_nl ls))" "\<not> isspace (last (join_nl ls))"
    using False ne by (simp_all add: hd_join_nl last_join_nl trimmed_def)
  then show ?thesis
    using False ne by (simp add: accumulated_def concat_lines strip_snoc_nl join_nl_ne)
qed

lemma strip_join_nl:
  assumes "list_all trimmed ls"
  shows "strip (join_nl ls) = join_nl ls"
proof (cases "ls = []")
  case True
  then show ?thesis by simp
next
  case False
  from assms have ne: "list_all (\<lambda>l. l \<noteq> []) ls"
    by (simp add: list_all_iff trimmed_def)
  from False assms have "trimmed (hd ls)" "trimmed (last ls)"
    by (simp_all add: list_all_iff)
  then have "\<not> isspace (hd (join_nl ls))" "\<not> isspace (last (join_nl ls))"
    using False ne by (simp_all add: hd_join_nl last_join_nl trimmed_def)
  then show ?thesis
    using False ne by (simp add: strip_id join_nl_ne)
qed

lemma line_ok_trimmed: "list_all (line_ok key) ls \<Longrightarrow> list_all trimmed ls"
  by (simp add: list_all_iff line_ok_def)

lemma clean_section_accumulated:
  assumes "list_all (line_ok key) ls"
  shows "\<exists>ls'. clean_section key (accumulated ls) = join_nl ls' \<and> list_all (line_ok key) ls'"
proof (cases "key = Content \<and> join_nl ls \<noteq> []")
  case False
  then have "clean_section key (accumulated ls) = join_nl ls"
    using assms by (auto simp: clean_section_def Let_def strip_accumulated line_ok_trimmed)
  with assms show ?thesis by blast
next
  case True
  then have ne: "ls \<noteq> []" by auto
  have t: "list_all trimmed ls"
    using assms by (rule line_ok_trimmed)
  then have "list_all (\<lambda>l. 10 \<notin> set l) ls"
    by (simp add: list_all_iff trimmed_def)
  then have sp: "split_nl (join_nl ls) = ls"
    using ne by (simp add: split_join_nl)
  have ms: "map strip ls = ls"
    using t by (simp add: list_all_iff strip_trimmed map_idI)
  let ?ls = "filter keep_content_line ls"
  have ok: "list_all (line_ok key) ?ls"
    using assms by (simp add: list_all_iff)
  then have "strip (join_nl ?ls) = join_nl ?ls"
    by (simp add: strip_join_nl line_ok_trimmed)
  then have "clean_section key (accumulated ls) = join_nl ?ls"
    using True t by (simp add: clean_section_def Let_def strip_accumulated sp ms)
  with ok show ?thesis by blast
qed

lemma parse_agent_response_lines:
  "\<exists>ls. parse_agent_response U response key = join_nl ls \<and> list_all (line_ok key) ls"
proof -
  have "\<And>k. \<exists>ls. snd (Summary, (\<lambda>key. [])) k = accumulated ls \<and> list_all (line_ok k) ls"
  proof -
    fix k :: section_key
    have "snd (Summary, (\<lambda>key. [])) k = accumulated [] \<and> list_all (line_ok k) []"
      by (simp add: accumulated_Nil)
    then show "\<exists>ls. snd (Summary, (\<lambda>key. [])) k = accumulated ls \<and> list_all (line_ok k) ls"
      by blast
  qed
  then have "\<exists>ls. snd (foldl (parse_line U) (Summary, (\<lambda>key. [])) (split_nl response)) key
      = accumulated ls \<and> list_all (line_ok key) ls"
    using split_nl_no_nl by (rule foldl_parse_line_inv)
  then show ?thesis
    using clean_section_accumulated by (auto simp: parse_agent_response_def Let_def)
qed

lemma split_nl_join_nl_all:
  assumes "list_all P ls" and "P []" and "list_all (\<lambda>l. 10 \<notin> set l) ls"
  shows "list_all P (split_nl (join_nl ls))"
proof (cases "ls = []")
  case True
  with assms show ?thesis by simp
next
  case False
  with assms show ?thesis by (simp add: split_join_nl)
qed

section \<open>Responses without headers\<close>

lemmas header_defs = header_of_def summary_headers_def content_headers_def hashtags_headers_def
  visual_headers_def analytics_headers_def trends_headers_def

lemma header_of_None_iff:
  "header_of x = None \<longleftrightarrow>
     list_all (\<lambda>h. \<not> contains x h)
       (summary_headers @ content_headers @ hashtags_headers @ visual_headers
        @ analytics_headers @ trends_headers)"
  by (simp add: header_of_def list_all_iff list_ex_iff) blast

lemma header_of_Nil: "header_of [] = None"
  by (simp add: header_defs ustr_def)

lemma accumulated_Cons: "accumulated (l # ls) = l @ [10] @ accumulated ls"
  by (simp add: accumulated_def)

lemma parse_line_no_header:
  assumes "header_of (lower U (strip raw)) = None"
  shows "parse_line U (Summary, secs) raw
     = (Summary, secs(Summary := secs Summary
          @ accumulated (filter (\<lambda>l. l \<noteq> [] \<and> \<not> startswith l (ustr ''##'')
                                    \<and> \<not> startswith l (ustr ''**'')) [strip raw])))"
  using assms by (auto simp: parse_line_def Let_def accumulated_def)

lemma foldl_no_header:
  assumes "list_all (\<lambda>raw. header_of (lower U (strip raw)) = None) raws"
  shows "foldl (parse_line U) (Summary, secs) raws
     = (Summary, secs(Summary := secs Summary
          @ accumulated (filter (\<lambda>l. l \<noteq> [] \<and> \<not> startswith l (ustr ''##'')
                                    \<and> \<not> startswith l (ustr ''**'')) (map strip raws))))"
  using assms
proof (induction raws arbitrary: secs)
  case Nil
  then show ?case by (simp add: accumulated_def)
next
  case (Cons raw raws)
  then show ?case
    by (simp add: parse_line_no_header) (auto simp: accumulated_def fun_eq_iff)
qed

lemma clean_section_Nil: "clean_section key [] = []"
  by (simp add: clean_section_def)

lemma parse_agent_response_no_header:
  assumes "list_all (\<lambda>raw. header_of (lower U (strip raw)) = None) (split_nl response)"
  shows "parse_agent_response U response
     = (\<lambda>key. [])(Summary := strip (accumulated
          (filter (\<lambda>l. l \<noteq> [] \<and> \<not> startswith l (ustr ''##'') \<and> \<not> startswith l (ustr ''**''))
             (map strip (split_nl response)))))"
  using assms
  by (auto simp: parse_agent_response_def Let_def foldl_no_header clean_section_Nil
      clean_section_def fun_eq_iff)

lemma lower_ascii_text:
  "lower U (ustr ''no headers at all, just text'') = ustr ''no headers at all, just text''"
  by (simp add: lower_no_sigma ustr_def)

lemma strip_text: "strip (ustr ''no headers at all, just text'') = ustr ''no headers at all, just text''"
  by (simp add: strip_def isspace_def ustr_def)

lemma header_of_text: "header_of (ustr ''no headers at all, just text'') = None"
  by (simp add: header_defs startswith_def ustr_def)

lemma split_nl_text: "split_nl (ustr ''no headers at all, just text'') = [ustr ''no headers at all, just text'']"
  by (simp add: ustr_def)

lemma parse_text:
  "parse_agent_response U (ustr ''no headers at all, just text'')
     = (\<lambda>key. [])(Summary := ustr ''no headers at all, just text'')"
proof -
  have k: "\<not> startswith (ustr ''no headers at all, just text'') (ustr ''##'')"
      "\<not> startswith (ustr ''no headers at all, just text'') (ustr ''**'')"
      "ustr ''no headers at all, just text'' \<noteq> []"
    by (simp_all add: startswith_def ustr_def)
  have "strip (accumulated [ustr ''no headers at all, just text'']) = ustr ''no headers at all, just text''"
    by (simp add: accumulated_def strip_def isspace_def ustr_def)
  then show ?thesis
    using k by (simp add: parse_agent_response_no_header split_nl_text strip_text lower_ascii_text header_of_text)
qed

lemma parse_empty: "parse_agent_response U [] = (\<lambda>key. [])"
  by (simp add: parse_agent_response_no_header header_of_Nil lower_def accumulated_def fun_eq_iff)

text \<open>
  Claim C1, as amended. When no line of the response, trimmed and lower-cased, holds one of
  the header substrings, the summary is the trimmed accumulation of the non-empty trimmed
  lines that start with neither \<open>##\<close> nor \<open>**\<close>, and the other five sections are empty.
  The empty response gives six empty sections, and "no headers at all, just text" comes
  back as the summary with the other sections empty.
\<close>

theorem parse_agent_response_without_headers:
  "(list_all (\<lambda>raw. list_all (\<lambda>h. \<not> contains (lower U (strip raw)) h)
                 (summary_headers @ content_headers @ hashtags_headers @ visual_headers
                  @ analytics_headers @ trends_headers)) (split_nl response)
    \<longrightarrow> parse_agent_response U response Summary
          = strip (accumulated
              (filter (\<lambda>l. l \<noteq> [] \<and> \<not> startswith l (ustr ''##'') \<and> \<not> startswith l (ustr ''**''))
                 (map strip (split_nl response))))
        \<and> parse_agent_response U response Content = []
        \<and> parse_agent_response U response Hashtags = []
        \<and> parse_agent_response U response Visual_concepts = []
        \<and> parse_agent_response U response Analytics = []
        \<and> parse_agent_response U response Trends = [])
   \<and> (parse_agent_response U [] Summary = [] \<and> parse_agent_response U [] Content = []
        \<and> parse_agent_response U [] Hashtags = [] \<and> parse_agent_response U [] Visual_concepts = []
        \<and> parse_agent_response U [] Analytics = [] \<and> parse_agent_response U [] Trends = [])
   \<and> (parse_agent_response U (ustr ''no headers at all, just text'') Summary
          = ustr ''no headers at all, just text''
        \<and> parse_agent_response U (ustr ''no headers at all, just text'') Content = []
        \<and> parse_agent_response U (ustr ''no headers at all, just text'') Hashtags = []
        \<and> parse_agent_response U (ustr ''no headers at all, just text'') Visual_concepts = []
        \<and> parse_agent_response U (ustr ''no headers at all, just text'') Analytics = []
        \<and> parse_agent_response U (ustr ''no headers at all, just text'') Trends = [])"
proof -
  have g: "parse_agent_response U response
     = (\<lambda>key. [])(Summary := strip (accumulated
          (filter (\<lambda>l. l \<noteq> [] \<and> \<not> startswith l (ustr ''##'') \<and> \<not> startswith l (ustr ''**''))
             (map strip (split_nl response)))))"
    if "list_all (\<lambda>raw. list_all (\<lambda>h. \<not> contains (lower U (strip raw)) h)
                 (summary_headers @ content_headers @ hashtags_headers @ visual_headers
                  @ analytics_headers @ trends_headers)) (split_nl response)"
    using that by (intro parse_agent_response_no_header) (simp only: header_of_None_iff)
  show ?thesis
    by (intro conjI impI) (simp_all add: g parse_empty parse_text)
qed

text \<open>
  Claim C1 as it was stated fails: the response "## Overview" holds no header substring and
  its one trimmed line is not empty, but the line is not accumulated and the summary is
  empty. The response is ASCII, so the Unicode table plays no part in the result.
\<close>

theorem parse_agent_response_without_headers_counterexample:
  "list_all (\<lambda>raw. list_all (\<lambda>h. \<not> contains (lower ascii_db (strip raw)) h)
                 (summary_headers @ content_headers @ hashtags_headers @ visual_headers
                  @ analytics_headers @ trends_headers)) (split_nl (ustr ''## Overview''))
   \<and> strip (accumulated (filter (\<lambda>l. l \<noteq> []) (map strip (split_nl (ustr ''## Overview'')))))
       = ustr ''## Overview''
   \<and> parse_agent_response ascii_db (ustr ''## Overview'') Summary = []"
proof -
  have sp: "split_nl (ustr ''## Overview'') = [ustr ''## Overview'']"
    by (simp add: ustr_def)
  have st: "strip (ustr ''## Overview'') = ustr ''## Overview''"
    by (simp add: strip_def isspace_def ustr_def)
  have lo: "lower ascii_db (ustr ''## Overview'') = ustr ''## overview''"
    by (simp add: lower_no_sigma ustr_def)
  have h: "header_of (ustr ''## overview'') = None"
    by (simp add: header_defs startswith_def ustr_def)
  have a: "strip (accumulated [ustr ''## Overview'']) = ustr ''## Overview''"
    by (simp add: accumulated_def strip_def isspace_def ustr_def)
  have n: "ustr ''## Overview'' \<noteq> []" "startswith (ustr ''## Overview'') (ustr ''##'')"
    by (simp_all add: startswith_def ustr_def)
  have "parse_agent_response ascii_db (ustr ''## Overview'') Summary = []"
    using n by (simp add: parse_agent_response_no_header sp st lo h accumulated_def)
  moreover have "list_all (\<lambda>h. \<not> contains (ustr ''## overview'') h)
                 (summary_headers @ content_headers @ hashtags_headers @ visual_headers
                  @ analytics_headers @ trends_headers)"
    using h by (simp only: header_of_None_iff)
  ultimately show ?thesis
    using n a by (simp add: sp st lo)
qed

text \<open>
  A response of five lines without header substrings: the line starting with \<open>##\<close>, the
  empty line and the line starting with \<open>**\<close> are left out of the summary.
\<close>

theorem parse_agent_response_without_headers_witness:
  "list_all (\<lambda>raw. list_all (\<lambda>h. \<not> contains (lower ascii_db (strip raw)) h)
                 (summary_headers @ content_headers @ hashtags_headers @ visual_headers
                  @ analytics_headers @ trends_headers))
      (split_nl (ustr ''Intro'' @ [10] @ ustr ''## Overview'' @ [10, 10] @ ustr ''  **Tip** '' @ [10] @ ustr ''Bye''))
   \<and> parse_agent_response ascii_db
        (ustr ''Intro'' @ [10] @ ustr ''## Overview'' @ [10, 10] @ ustr ''  **Tip** '' @ [10] @ ustr ''Bye'')
        Summary = ustr ''Intro'' @ [10] @ ustr ''Bye''
   \<and> parse_agent_response ascii_db
        (ustr ''Intro'' @ [10] @ ustr ''## Overview'' @ [10, 10] @ ustr ''  **Tip** '' @ [10] @ ustr ''Bye'')
        Content = []"
proof -
  let ?r = "ustr ''Intro'' @ [10] @ ustr ''## Overview'' @ [10, 10] @ ustr ''  **Tip** '' @ [10] @ ustr ''Bye''"
  have sp: "split_nl ?r = [ustr ''Intro'', ustr ''## Overview'', [], ustr ''  **Tip** '', ustr ''Bye'']"
    by (simp add: ustr_def)
  have st: "strip (ustr ''Intro'') = ustr ''Intro''" "strip (ustr ''## Overview'') = ustr ''## Overview''"
    "strip (ustr ''  **Tip** '') = ustr ''**Tip**''" "strip (ustr ''Bye'') = ustr ''Bye''"
    by (simp_all add: strip_def isspace_def ustr_def)
  have lo: "lower ascii_db (ustr ''Intro'') = ustr ''intro''"
    "lower ascii_db (ustr ''## Overview'') = ustr ''## overview''"
    "lower ascii_db [] = []"
    "lower ascii_db (ustr ''**Tip**'') = ustr ''**tip**''"
    "lower ascii_db (ustr ''Bye'') = ustr ''bye''"
    by (simp_all add: lower_no_sigma ustr_def)
  have h: "header_of (ustr ''intro'') = None" "header_of (ustr ''## overview'') = None"
    "header_of [] = None" "header_of (ustr ''**tip**'') = None" "header_of (ustr ''bye'') = None"
    by (simp_all add: header_defs startswith_def ustr_def)
  have hyp: "list_all (\<lambda>raw. list_all (\<lambda>h. \<not> contains (lower ascii_db (strip raw)) h)
                 (summary_headers @ content_headers @ hashtags_headers @ visual_headers
                  @ analytics_headers @ trends_headers)) (split_nl ?r)"
    unfolding sp using h by (simp add: st lo header_of_None_iff del: list_all_append)
  have f: "filter (\<lambda>l. l \<noteq> [] \<and> \<not> startswith l (ustr ''##'') \<and> \<not> startswith l (ustr ''**''))
                 (map strip (split_nl ?r)) = [ustr ''Intro'', ustr ''Bye'']"
    unfolding sp by (simp add: st) (simp add: startswith_def ustr_def)
  have a: "strip (accumulated [ustr ''Intro'', ustr ''Bye'']) = ustr ''Intro'' @ [10] @ ustr ''Bye''"
    by (simp add: accumulated_def strip_def isspace_def ustr_def)
  show ?thesis
    using parse_agent_response_without_headers [of ascii_db ?r] hyp
    unfolding f a by blast
qed

section \<open>The example with two headers\<close>

text \<open>
  Claim C2. The response "## (memo) Content", "Hello world", "## (label) Hashtag Strategy",
  "#Fun #Cool" on four lines gives the content "Hello world" and the hashtags "#Fun #Cool",
  and the summary, the visual concepts, the analytics and the trends are empty. Each of the
  two header lines switches the current section, from whatever section it was, and leaves
  every section as it is: a header line is not accumulated. Each of the two body lines is
  appended, with a line feed, to the section its header opened. The emoji are the code
  points 128221 and 127991 followed by the variation selector 65039; the three have no
  lower-case mapping in Unicode, which the parameter must agree with.
\<close>

theorem parse_agent_response_example:
  assumes "uni_lower U 128221 = [128221]" and "uni_lower U 127991 = [127991]"
    and "uni_lower U 65039 = [65039]"
  shows "parse_agent_response U
           (ustr ''## '' @ [128221] @ ustr '' Content'' @ [10] @ ustr ''Hello world'' @ [10]
            @ ustr ''## '' @ [127991, 65039] @ ustr '' Hashtag Strategy'' @ [10]
            @ ustr ''#Fun #Cool'') Content = ustr ''Hello world''
       \<and> parse_agent_response U
           (ustr ''## '' @ [128221] @ ustr '' Content'' @ [10] @ ustr ''Hello world'' @ [10]
            @ ustr ''## '' @ [127991, 65039] @ ustr '' Hashtag Strategy'' @ [10]
            @ ustr ''#Fun #Cool'') Hashtags = ustr ''#Fun #Cool''
       \<and> parse_agent_response U
           (ustr ''## '' @ [128221] @ ustr '' Content'' @ [10] @ ustr ''Hello world'' @ [10]
            @ ustr ''## '' @ [127991, 65039] @ ustr '' Hashtag Strategy'' @ [10]
            @ ustr ''#Fun #Cool'') Summary = []
       \<and> parse_agent_response U
           (ustr ''## '' @ [128221] @ ustr '' Content'' @ [10] @ ustr ''Hello world'' @ [10]
            @ ustr ''## '' @ [127991, 65039] @ ustr '' Hashtag Strategy'' @ [10]
            @ ustr ''#Fun #Cool'') Visual_concepts = []
       \<and> parse_agent_response U
           (ustr ''## '' @ [128221] @ ustr '' Content'' @ [10] @ ustr ''Hello world'' @ [10]
            @ ustr ''## '' @ [127991, 65039] @ ustr '' Hashtag Strategy'' @ [10]
            @ ustr ''#Fun #Cool'') Analytics = []
       \<and> parse_agent_response U
           (ustr ''## '' @ [128221] @ ustr '' Content'' @ [10] @ ustr ''Hello world'' @ [10]
            @ ustr ''## '' @ [127991, 65039] @ ustr '' Hashtag Strategy'' @ [10]
            @ ustr ''#Fun #Cool'') Trends = []
       \<and> parse_line U (cur, secs) (ustr ''## '' @ [128221] @ ustr '' Content'') = (Content, secs)
       \<and> parse_line U (Content, secs) (ustr ''Hello world'')
           = (Content, secs(Content := secs Content @ ustr ''Hello world'' @ [10]))
       \<and> parse_line U (cur, secs) (ustr ''## '' @ [127991, 65039] @ ustr '' Hashtag Strategy'')
           = (Hashtags, secs)
       \<and> parse_line U (Hashtags, secs) (ustr ''#Fun #Cool'')
           = (Hashtags, secs(Hashtags := secs Hashtags @ ustr ''#Fun #Cool'' @ [10]))"
proof -
  let ?r = "ustr ''## '' @ [128221] @ ustr '' Content'' @ [10] @ ustr ''Hello world'' @ [10]
            @ ustr ''## '' @ [127991, 65039] @ ustr '' Hashtag Strategy'' @ [10]
            @ ustr ''#Fun #Cool''"
  have sp: "split_nl ?r
     = [ustr ''## '' @ [128221] @ ustr '' Content'', ustr ''Hello world'',
        ustr ''## '' @ [127991, 65039] @ ustr '' Hashtag Strategy'', ustr ''#Fun #Cool'']"
    by (simp add: ustr_def)
  have st: "strip (ustr ''## '' @ [128221] @ ustr '' Content'') = ustr ''## '' @ [128221] @ ustr '' Content''"
    "strip (ustr ''Hello world'') = ustr ''Hello world''"
    "strip (ustr ''## '' @ [127991, 65039] @ ustr '' Hashtag Strategy'')
       = ustr ''## '' @ [127991, 65039] @ ustr '' Hashtag Strategy''"
    "strip (ustr ''#Fun #Cool'') = ustr ''#Fun #Cool''"
    by (simp_all add: strip_def isspace_def ustr_def)
  have lo: "lower U (ustr ''## '' @ [128221] @ ustr '' Content'') = ustr ''## '' @ [128221] @ ustr '' content''"
    "lower U (ustr ''Hello world'') = ustr ''hello world''"
    "lower U (ustr ''## '' @ [127991, 65039] @ ustr '' Hashtag Strategy'')
       = ustr ''## '' @ [127991, 65039] @ ustr '' hashtag strategy''"
    "lower U (ustr ''#Fun #Cool'') = ustr ''#fun #cool''"
    by (simp_all add: lower_no_sigma ustr_def assms)
  have h: "header_of (ustr ''## '' @ [128221] @ ustr '' content'') = Some Content"
    "header_of (ustr ''hello world'') = None"
    "header_of (ustr ''## '' @ [127991, 65039] @ ustr '' hashtag strategy'') = Some Hashtags"
    "header_of (ustr ''#fun #cool'') = None"
    by (simp_all add: header_defs startswith_def ustr_def)
  have sw: "\<not> startswith (ustr ''Hello world'') (ustr ''##'')"
    "\<not> startswith (ustr ''#Fun #Cool'') (ustr ''##'')"
    "\<not> startswith (ustr ''#Fun #Cool'') (ustr ''**'')"
    by (simp_all add: startswith_def ustr_def)
  have n: "ustr ''## '' @ [128221] @ ustr '' Content'' \<noteq> []" "ustr ''Hello world'' \<noteq> []"
    "ustr ''## '' @ [127991, 65039] @ ustr '' Hashtag Strategy'' \<noteq> []" "ustr ''#Fun #Cool'' \<noteq> []"
    by (simp_all add: ustr_def)
  have p1: "parse_line U (c, s) (ustr ''## '' @ [128221] @ ustr '' Content'') = (Content, s)"
    for c s
    unfolding parse_line_def Let_def fst_conv snd_conv st lo h using n by simp
  have p2: "parse_line U (Content, s) (ustr ''Hello world'')
      = (Content, s(Content := s Content @ ustr ''Hello world'' @ [10]))" for s
    unfolding parse_line_def Let_def fst_conv snd_conv st lo h using sw n by simp
  have p3: "parse_line U (c, s) (ustr ''## '' @ [127991, 65039] @ ustr '' Hashtag Strategy'')
      = (Hashtags, s)" for c s
    unfolding parse_line_def Let_def fst_conv snd_conv st lo h using n by simp
  have p4: "parse_line U (Hashtags, s) (ustr ''#Fun #Cool'')
      = (Hashtags, s(Hashtags := s Hashtags @ ustr ''#Fun #Cool'' @ [10]))" for s
    unfolding parse_line_def Let_def fst_conv snd_conv st lo h using sw n by simp
  have fo: "snd (foldl (parse_line U) (Summary, (\<lambda>key. [])) (split_nl ?r))
     = (\<lambda>key. [])(Content := ustr ''Hello world'' @ [10], Hashtags := ustr ''#Fun #Cool'' @ [10])"
    unfolding sp foldl.simps p1 p2 p3 p4 by simp
  have c1: "clean_section Content (ustr ''Hello world'' @ [10]) = ustr ''Hello world''"
    by (simp add: clean_section_def strip_def isspace_def ustr_def keep_content_line_def startswith_def)
  have c2: "clean_section Hashtags (ustr ''#Fun #Cool'' @ [10]) = ustr ''#Fun #Cool''"
    by (simp add: clean_section_def strip_def isspace_def ustr_def)
  have r: "parse_agent_response U ?r Content = ustr ''Hello world''"
    "parse_agent_response U ?r Hashtags = ustr ''#Fun #Cool''"
    "parse_agent_response U ?r Summary = []"
    "parse_agent_response U ?r Visual_concepts = []"
    "parse_agent_response U ?r Analytics = []"
    "parse_agent_response U ?r Trends = []"
    unfolding parse_agent_response_def Let_def fo
    using c1 c2 by (simp_all add: clean_section_Nil)
  show ?thesis
    using r p1 [of cur secs] p2 [of secs] p3 [of cur secs] p4 [of secs] by blast
qed

text \<open>
  The table without entries beyond ASCII leaves the three code points as they are; the two
  header steps are taken from the sections they are met in.
\<close>

theorem parse_agent_response_example_witness:
  "uni_lower ascii_db 128221 = [128221] \<and> uni_lower ascii_db 127991 = [127991]
   \<and> uni_lower ascii_db 65039 = [65039]
   \<and> parse_agent_response ascii_db
           (ustr ''## '' @ [128221] @ ustr '' Content'' @ [10] @ ustr ''Hello world'' @ [10]
            @ ustr ''## '' @ [127991, 65039] @ ustr '' Hashtag Strategy'' @ [10]
            @ ustr ''#Fun #Cool'') Content = ustr ''Hello world''
   \<and> parse_agent_response ascii_db
           (ustr ''## '' @ [128221] @ ustr '' Content'' @ [10] @ ustr ''Hello world'' @ [10]
            @ ustr ''## '' @ [127991, 65039] @ ustr '' Hashtag Strategy'' @ [10]
            @ ustr ''#Fun #Cool'') Hashtags = ustr ''#Fun #Cool''
   \<and> parse_agent_response ascii_db
           (ustr ''## '' @ [128221] @ ustr '' Content'' @ [10] @ ustr ''Hello world'' @ [10]
            @ ustr ''## '' @ [127991, 65039] @ ustr '' Hashtag Strategy'' @ [10]
            @ ustr ''#Fun #Cool'') Summary = []
   \<and> parse_line ascii_db (Summary, (\<lambda>key. [])) (ustr ''## '' @ [128221] @ ustr '' Content'')
       = (Content, (\<lambda>key. []))
   \<and> parse_line ascii_db (Content, (\<lambda>key. [])) (ustr ''## '' @ [127991, 65039] @ ustr '' Hashtag Strategy'')
       = (Hashtags, (\<lambda>key. []))"
proof -
  have h: "uni_lower ascii_db 128221 = [128221]" "uni_lower ascii_db 127991 = [127991]"
    "uni_lower ascii_db 65039 = [65039]"
    by (simp_all add: ascii_db_def)
  show ?thesis
    using h parse_agent_response_example [OF h, of Summary "\<lambda>key. []"]
      parse_agent_response_example [OF h, of Content "\<lambda>key. []"]
    by blast
qed

section \<open>One line of the loop\<close>

text \<open>
  Claim C3, as amended. For a line that is not empty once trimmed and holds no header
  substring: when the current section is not the content, the trimmed line and a line feed
  are appended to the current section unless the line starts with \<open>##\<close> or starts with
  \<open>**\<close> (whatever it ends with), and then nothing changes; when the current section is the
  content, every line that does not start with \<open>##\<close> is appended, bold or not, and a
  line starting with \<open>##\<close> changes nothing.
\<close>

theorem parse_line_accumulation:
  "strip raw \<noteq> [] \<and> header_of (lower U (strip raw)) = None \<longrightarrow>
     (cur \<noteq> Content \<and> \<not> startswith (strip raw) (ustr ''##'')
        \<and> \<not> startswith (strip raw) (ustr ''**'')
      \<longrightarrow> parse_line U (cur, secs) raw = (cur, secs(cur := secs cur @ strip raw @ [10])))
   \<and> (cur \<noteq> Content \<and> (startswith (strip raw) (ustr ''##'') \<or> startswith (strip raw) (ustr ''**''))
      \<longrightarrow> parse_line U (cur, secs) raw = (cur, secs))
   \<and> (cur = Content \<and> \<not> startswith (strip raw) (ustr ''##'')
      \<longrightarrow> parse_line U (cur, secs) raw = (cur, secs(cur := secs cur @ strip raw @ [10])))
   \<and> (cur = Content \<and> startswith (strip raw) (ustr ''##'')
      \<longrightarrow> parse_line U (cur, secs) raw = (cur, secs))"
  by (simp add: parse_line_def Let_def)

text \<open>
  Claim C3 as it was stated fails: "**Note: read on" starts with \<open>**\<close>, does not end with
  \<open>**\<close> and holds no header substring, but in the summary section it is not accumulated.
  The line is ASCII, so the Unicode table plays no part in the result.
\<close>

theorem parse_line_accumulation_counterexample:
  "strip (ustr ''**Note: read on'') = ustr ''**Note: read on''
   \<and> header_of (lower ascii_db (ustr ''**Note: read on'')) = None
   \<and> startswith (ustr ''**Note: read on'') (ustr ''**'')
   \<and> \<not> endswith (ustr ''**Note: read on'') (ustr ''**'')
   \<and> \<not> startswith (ustr ''**Note: read on'') (ustr ''##'')
   \<and> snd (parse_line ascii_db (Summary, (\<lambda>key. [])) (ustr ''**Note: read on'')) Summary = []"
proof -
  have st: "strip (ustr ''**Note: read on'') = ustr ''**Note: read on''"
    by (simp add: strip_def isspace_def ustr_def)
  have lo: "lower ascii_db (ustr ''**Note: read on'') = ustr ''**note: read on''"
    by (simp add: lower_no_sigma ustr_def)
  have h: "header_of (ustr ''**note: read on'') = None"
    by (simp add: header_defs startswith_def ustr_def)
  have s: "startswith (ustr ''**Note: read on'') (ustr ''**'')"
    "\<not> endswith (ustr ''**Note: read on'') (ustr ''**'')"
    "\<not> startswith (ustr ''**Note: read on'') (ustr ''##'')"
    by (simp_all add: startswith_def endswith_def ustr_def)
  have n: "ustr ''**Note: read on'' \<noteq> []"
    by (simp add: ustr_def)
  have "parse_line ascii_db (Summary, (\<lambda>key. [])) (ustr ''**Note: read on'')
       = (Summary, (\<lambda>key. []))"
    unfolding parse_line_def Let_def st lo h using s n by simp
  then show ?thesis
    using s by (simp add: st lo h)
qed

text \<open>The four cases of the amended claim, each at a line of its own.\<close>

theorem parse_line_accumulation_witness:
  "strip (ustr '' plain text '') = ustr ''plain text''
   \<and> header_of (lower ascii_db (ustr ''plain text'')) = None
   \<and> parse_line ascii_db (Summary, (\<lambda>key. [])) (ustr '' plain text '')
       = (Summary, (\<lambda>key. [])(Summary := ustr ''plain text'' @ [10]))
   \<and> strip (ustr ''**Note: read on'') = ustr ''**Note: read on''
   \<and> header_of (lower ascii_db (ustr ''**Note: read on'')) = None
   \<and> parse_line ascii_db (Hashtags, (\<lambda>key. [])) (ustr ''**Note: read on'')
       = (Hashtags, (\<lambda>key. []))
   \<and> parse_line ascii_db (Content, (\<lambda>key. [])) (ustr ''**Note: read on'')
       = (Content, (\<lambda>key. [])(Content := ustr ''**Note: read on'' @ [10]))
   \<and> strip (ustr ''## More'') = ustr ''## More''
   \<and> header_of (lower ascii_db (ustr ''## More'')) = None
   \<and> parse_line ascii_db (Content, (\<lambda>key. [])) (ustr ''## More'') = (Content, (\<lambda>key. []))"
proof -
  have st: "strip (ustr '' plain text '') = ustr ''plain text''"
    "strip (ustr ''**Note: read on'') = ustr ''**Note: read on''"
    "strip (ustr ''## More'') = ustr ''## More''"
    by (simp_all add: strip_def isspace_def ustr_def)
  have lo: "lower ascii_db (ustr ''plain text'') = ustr ''plain text''"
    "lower ascii_db (ustr ''**Note: read on'') = ustr ''**note: read on''"
    "lower ascii_db (ustr ''## More'') = ustr ''## more''"
    by (simp_all add: lower_no_sigma ustr_def)
  have h: "header_of (ustr ''plain text'') = None" "header_of (ustr ''**note: read on'') = None"
    "header_of (ustr ''## more'') = None"
    by (simp_all add: header_defs startswith_def ustr_def)
  have s: "\<not> startswith (ustr ''plain text'') (ustr ''##'')"
    "\<not> startswith (ustr ''plain text'') (ustr ''**'')"
    "startswith (ustr ''**Note: read on'') (ustr ''**'')"
    "\<not> startswith (ustr ''**Note: read on'') (ustr ''##'')"
    "startswith (ustr ''## More'') (ustr ''##'')"
    by (simp_all add: startswith_def ustr_def)
  have n: "ustr ''plain text'' \<noteq> []" "ustr ''**Note: read on'' \<noteq> []" "ustr ''## More'' \<noteq> []"
    by (simp_all add: ustr_def)
  show ?thesis
    using parse_line_accumulation [where raw = "ustr '' plain text ''" and U = ascii_db
        and cur = Summary and secs = "\<lambda>key. []"]
      parse_line_accumulation [where raw = "ustr ''**Note: read on''" and U = ascii_db
        and cur = Hashtags and secs = "\<lambda>key. []"]
      parse_line_accumulation [where raw = "ustr ''**Note: read on''" and U = ascii_db
        and cur = Content and secs = "\<lambda>key. []"]
      parse_line_accumulation [where raw = "ustr ''## More''" and U = ascii_db
        and cur = Content and secs = "\<lambda>key. []"]
    unfolding st lo h using s n by simp
qed

section \<open>No header line in the result\<close>

text \<open>
  Claim C9. In the result of \<open>parse_agent_response\<close>, no line (between line feeds) of the
  summary, the hashtags, the visual concepts, the analytics or the trends starts with
  \<open>##\<close> or with \<open>**\<close>, and no line of the content starts with \<open>##\<close>.
\<close>

theorem parse_agent_response_no_header_lines:
  "list_all (\<lambda>l. \<not> startswith l (ustr ''##'') \<and> \<not> startswith l (ustr ''**''))
     (split_nl (parse_agent_response U response Summary))
   \<and> list_all (\<lambda>l. \<not> startswith l (ustr ''##'') \<and> \<not> startswith l (ustr ''**''))
     (split_nl (parse_agent_response U response Hashtags))
   \<and> list_all (\<lambda>l. \<not> startswith l (ustr ''##'') \<and> \<not> startswith l (ustr ''**''))
     (split_nl (parse_agent_response U response Visual_concepts))
   \<and> list_all (\<lambda>l. \<not> startswith l (ustr ''##'') \<and> \<not> startswith l (ustr ''**''))
     (split_nl (parse_agent_response U response Analytics))
   \<and> list_all (\<lambda>l. \<not> startswith l (ustr ''##'') \<and> \<not> startswith l (ustr ''**''))
     (split_nl (parse_agent_response U response Trends))
   \<and> list_all (\<lambda>l. \<not> startswith l (ustr ''##''))
     (split_nl (parse_agent_response U response Content))"
proof -
  have e: "\<not> startswith [] (ustr ''##'')" "\<not> startswith [] (ustr ''**'')"
    by (simp_all add: startswith_def ustr_def)
  have a: "list_all (\<lambda>l. \<not> startswith l (ustr ''##'') \<and> \<not> startswith l (ustr ''**''))
     (split_nl (parse_agent_response U response key))" if "key \<noteq> Content" for key
  proof -
    obtain ls where ls: "parse_agent_response U response key = join_nl ls"
      "list_all (line_ok key) ls"
      using parse_agent_response_lines by blast
    from ls(2) that have "list_all (\<lambda>l. \<not> startswith l (ustr ''##'') \<and> \<not> startswith l (ustr ''**'')) ls"
      "list_all (\<lambda>l. 10 \<notin> set l) ls"
      by (simp_all add: list_all_iff line_ok_def trimmed_def)
    then show ?thesis
      unfolding ls(1) using e by (intro split_nl_join_nl_all) simp_all
  qed
  have b: "list_all (\<lambda>l. \<not> startswith l (ustr ''##''))
     (split_nl (parse_agent_response U response Content))"
  proof -
    obtain ls where ls: "parse_agent_response U response Content = join_nl ls"
      "list_all (line_ok Content) ls"
      using parse_agent_response_lines by blast
    from ls(2) have "list_all (\<lambda>l. \<not> startswith l (ustr ''##'')) ls"
      "list_all (\<lambda>l. 10 \<notin> set l) ls"
      by (simp_all add: list_all_iff line_ok_def trimmed_def)
    then show ?thesis
      unfolding ls(1) using e by (intro split_nl_join_nl_all) simp_all
  qed
  show ?thesis
    using a [of Summary] a [of Hashtags] a [of Visual_concepts] a [of Analytics] a [of Trends] b
    by simp
qed

text \<open>
  A response whose content section receives a bold sentence, a bold label and a \<open>##\<close>
  line: the sentence stays, the label goes in the second pass, the \<open>##\<close> line in the
  first.
\<close>

theorem parse_agent_response_no_header_lines_witness:
  "parse_agent_response ascii_db
     (ustr ''**Draft**'' @ [10] @ ustr ''post content'' @ [10] @ ustr ''**Big** news'' @ [10]
      @ ustr ''**Label**'' @ [10] @ ustr ''## Heading'' @ [10] @ ustr ''Bye'') Content
     = ustr ''**Big** news'' @ [10] @ ustr ''Bye''
   \<and> parse_agent_response ascii_db
     (ustr ''**Draft**'' @ [10] @ ustr ''post content'' @ [10] @ ustr ''**Big** news'' @ [10]
      @ ustr ''**Label**'' @ [10] @ ustr ''## Heading'' @ [10] @ ustr ''Bye'') Summary = []
   \<and> list_all (\<lambda>l. \<not> startswith l (ustr ''##''))
       (split_nl (parse_agent_response ascii_db
         (ustr ''**Draft**'' @ [10] @ ustr ''post content'' @ [10] @ ustr ''**Big** news'' @ [10]
          @ ustr ''**Label**'' @ [10] @ ustr ''## Heading'' @ [10] @ ustr ''Bye'') Content))
   \<and> list_all (\<lambda>l. \<not> startswith l (ustr ''##'') \<and> \<not> startswith l (ustr ''**''))
       (split_nl (parse_agent_response ascii_db
         (ustr ''**Draft**'' @ [10] @ ustr ''post content'' @ [10] @ ustr ''**Big** news'' @ [10]
          @ ustr ''**Label**'' @ [10] @ ustr ''## Heading'' @ [10] @ ustr ''Bye'') Summary))"
proof -
  let ?r = "ustr ''**Draft**'' @ [10] @ ustr ''post content'' @ [10] @ ustr ''**Big** news'' @ [10]
      @ ustr ''**Label**'' @ [10] @ ustr ''## Heading'' @ [10] @ ustr ''Bye''"
  have sp: "split_nl ?r = [ustr ''**Draft**'', ustr ''post content'', ustr ''**Big** news'',
      ustr ''**Label**'', ustr ''## Heading'', ustr ''Bye'']"
    by (simp add: ustr_def)
  have st: "strip (ustr ''**Draft**'') = ustr ''**Draft**''"
    "strip (ustr ''post content'') = ustr ''post content''"
    "strip (ustr ''**Big** news'') = ustr ''**Big** news''"
    "strip (ustr ''**Label**'') = ustr ''**Label**''"
    "strip (ustr ''## Heading'') = ustr ''## Heading''"
    "strip (ustr ''Bye'') = ustr ''Bye''"
    by (simp_all add: strip_def isspace_def ustr_def)
  have lo: "lower ascii_db (ustr ''**Draft**'') = ustr ''**draft**''"
    "lower ascii_db (ustr ''post content'') = ustr ''post content''"
    "lower ascii_db (ustr ''**Big** news'') = ustr ''**big** news''"
    "lower ascii_db (ustr ''**Label**'') = ustr ''**label**''"
    "lower ascii_db (ustr ''## Heading'') = ustr ''## heading''"
    "lower ascii_db (ustr ''Bye'') = ustr ''bye''"
    by (simp_all add: lower_no_sigma ustr_def)
  have h: "header_of (ustr ''**draft**'') = None"
    "header_of (ustr ''post content'') = Some Content"
    "header_of (ustr ''**big** news'') = None"
    "header_of (ustr ''**label**'') = None"
    "header_of (ustr ''## heading'') = None"
    "header_of (ustr ''bye'') = None"
    by (simp_all add: header_defs startswith_def ustr_def)
  have s: "startswith (ustr ''**Draft**'') (ustr ''**'')"
    "\<not> startswith (ustr ''**Big** news'') (ustr ''##'')"
    "\<not> startswith (ustr ''**Label**'') (ustr ''##'')"
    "startswith (ustr ''## Heading'') (ustr ''##'')"
    "\<not> startswith (ustr ''Bye'') (ustr ''##'')"
    by (simp_all add: startswith_def ustr_def)
  have n: "ustr ''**Draft**'' \<noteq> []" "ustr ''post content'' \<noteq> []"
    "ustr ''**Big** news'' \<noteq> []" "ustr ''**Label**'' \<noteq> []" "ustr ''## Heading'' \<noteq> []"
    "ustr ''Bye'' \<noteq> []"
    by (simp_all add: ustr_def)
  have p1: "parse_line ascii_db (Summary, secs) (ustr ''**Draft**'') = (Summary, secs)" for secs
    unfolding parse_line_def Let_def fst_conv snd_conv st lo h using s n by simp
  have p2: "parse_line ascii_db (Summary, secs) (ustr ''post content'') = (Content, secs)" for secs
    unfolding parse_line_def Let_def fst_conv snd_conv st lo h using s n by simp
  have p3: "parse_line ascii_db (Content, secs) (ustr ''**Big** news'')
      = (Content, secs(Content := secs Content @ ustr ''**Big** news'' @ [10]))" for secs
    unfolding parse_line_def Let_def fst_conv snd_conv st lo h using s n by simp
  have p4: "parse_line ascii_db (Content, secs) (ustr ''**Label**'')
      = (Content, secs(Content := secs Content @ ustr ''**Label**'' @ [10]))" for secs
    unfolding parse_line_def Let_def fst_conv snd_conv st lo h using s n by simp
  have p5: "parse_line ascii_db (Content, secs) (ustr ''## Heading'') = (Content, secs)" for secs
    unfolding parse_line_def Let_def fst_conv snd_conv st lo h using s n by simp
  have p6: "parse_line ascii_db (Content, secs) (ustr ''Bye'')
      = (Content, secs(Content := secs Content @ ustr ''Bye'' @ [10]))" for secs
    unfolding parse_line_def Let_def fst_conv snd_conv st lo h using s n by simp
  have fo: "snd (foldl (parse_line ascii_db) (Summary, (\<lambda>key. [])) (split_nl ?r))
     = (\<lambda>key. [])(Content := ustr ''**Big** news'' @ [10] @ ustr ''**Label**'' @ [10]
                              @ ustr ''Bye'' @ [10])"
    unfolding sp by (simp add: p1 p2 p3 p4 p5 p6)
  have w: "split_ws (ustr ''**Label**'') = [ustr ''**Label**'']"
    by (simp add: split_ws_def isspace_def ustr_def)
  have k: "keep_content_line (ustr ''**Big** news'')" "keep_content_line (ustr ''Bye'')"
    by (simp_all add: keep_content_line_def startswith_def endswith_def ustr_def)
  have k2: "\<not> keep_content_line (ustr ''**Label**'')"
    unfolding keep_content_line_def w by (simp add: startswith_def endswith_def ustr_def)
  have t: "strip (ustr ''**Big** news'' @ [10] @ ustr ''**Label**'' @ [10] @ ustr ''Bye'' @ [10])
      = ustr ''**Big** news'' @ [10] @ ustr ''**Label**'' @ [10] @ ustr ''Bye''"
    by (simp add: strip_def isspace_def ustr_def)
  have sp2: "split_nl (ustr ''**Big** news'' @ [10] @ ustr ''**Label**'' @ [10] @ ustr ''Bye'')
      = [ustr ''**Big** news'', ustr ''**Label**'', ustr ''Bye'']"
    by (simp add: ustr_def)
  have j: "strip (join_nl [ustr ''**Big** news'', ustr ''Bye'']) = ustr ''**Big** news'' @ [10] @ ustr ''Bye''"
    by (simp add: strip_def isspace_def ustr_def)
  have ne: "ustr ''**Big** news'' @ [10] @ ustr ''**Label**'' @ [10] @ ustr ''Bye'' \<noteq> []"
    by (simp add: ustr_def)
  have cs: "clean_section Content
       (ustr ''**Big** news'' @ [10] @ ustr ''**Label**'' @ [10] @ ustr ''Bye'' @ [10])
     = ustr ''**Big** news'' @ [10] @ ustr ''Bye''"
    unfolding clean_section_def Let_def t sp2
    by (simp add: st k k2 j) (simp add: ustr_def strip_def isspace_def)
  have c: "parse_agent_response ascii_db ?r Content = ustr ''**Big** news'' @ [10] @ ustr ''Bye''"
    unfolding parse_agent_response_def Let_def fo fun_upd_same by (rule cs)
  have su: "parse_agent_response ascii_db ?r Summary = []"
    unfolding parse_agent_response_def Let_def fo clean_section_def
    by simp
  show ?thesis
    using parse_agent_response_no_header_lines [of ascii_db ?r] c su by simp
qed

section \<open>Hashtags\<close>

lemma list_of_set_props: "list_of_set xs out \<Longrightarrow> set out = set xs \<and> distinct out"
proof -
  assume "list_of_set xs out"
  then have m: "mset out = mset (remdups xs)"
    by (simp add: list_of_set_def)
  then have "set out = set (remdups xs)"
    by (rule mset_eq_setD)
  moreover have "distinct out \<longleftrightarrow> distinct (remdups xs)"
    using m by (rule mset_eq_imp_distinct_iff)
  ultimately show ?thesis
    by simp
qed

lemma list_of_set_remdups: "list_of_set xs (remdups xs)"
  by (simp add: list_of_set_def)

lemma format_hashtags_returns: "\<exists>out. format_hashtags U hashtags out"
  using list_of_set_remdups by (auto simp: format_hashtags_def)

lemma format_hashtags_set:
  "format_hashtags U hashtags out \<Longrightarrow>
     set out = set (formatted (findall_hashtag U hashtags)) \<and> distinct out"
  by (cases "hashtags = []") (auto simp: format_hashtags_def dest: list_of_set_props)

lemma formatted_shape:
  "list_all (\<lambda>t. t \<noteq> [] \<and> hd t = 35 \<and> 2 \<le> length (tl t) \<and> list_all ascii_word (tl t))
     (formatted tags)"
  by (induction tags) (auto simp: Let_def list_all_iff)

lemma findall_example:
  "findall_hashtag U (ustr ''check #Go! and #1 and #ab'') = [ustr ''#Go'', ustr ''#1'', ustr ''#ab'']"
  by (simp add: ustr_def is_word_def ascii_word_def)

lemma formatted_example:
  "formatted [ustr ''#Go'', ustr ''#1'', ustr ''#ab''] = [ustr ''#Go'', ustr ''#ab'']"
  by (simp add: ustr_def ascii_word_def Let_def)

text \<open>
  Claim C7. For "check #Go! and #1 and #ab" the call returns a list, and every list it may
  return has exactly the elements "#Go" and "#ab", each once, in some order: the match "#1"
  is found but dropped, its cleaned tag "1" being one character long.
\<close>

theorem format_hashtags_example:
  "(\<exists>out. format_hashtags U (ustr ''check #Go! and #1 and #ab'') out)
   \<and> (\<forall>out. format_hashtags U (ustr ''check #Go! and #1 and #ab'') out \<longrightarrow>
          set out = {ustr ''#Go'', ustr ''#ab''} \<and> distinct out \<and> ustr ''#1'' \<notin> set out)
   \<and> ustr ''#1'' \<in> set (findall_hashtag U (ustr ''check #Go! and #1 and #ab''))"
proof -
  have d: "ustr ''#1'' \<noteq> ustr ''#Go''" "ustr ''#1'' \<noteq> ustr ''#ab''"
    by (simp_all add: ustr_def)
  have "set out = {ustr ''#Go'', ustr ''#ab''} \<and> distinct out \<and> ustr ''#1'' \<notin> set out"
    if "format_hashtags U (ustr ''check #Go! and #1 and #ab'') out" for out
    using format_hashtags_set [OF that, unfolded findall_example formatted_example] d by simp
  then have b: "\<forall>out. format_hashtags U (ustr ''check #Go! and #1 and #ab'') out \<longrightarrow>
          set out = {ustr ''#Go'', ustr ''#ab''} \<and> distinct out \<and> ustr ''#1'' \<notin> set out"
    by blast
  have c: "ustr ''#1'' \<in> set (findall_hashtag U (ustr ''check #Go! and #1 and #ab''))"
    unfolding findall_example by simp
  show ?thesis
    using format_hashtags_returns [of U "ustr ''check #Go! and #1 and #ab''"] b c by blast
qed

text \<open>One of the two orders in which the result may come.\<close>

theorem format_hashtags_example_witness:
  "format_hashtags ascii_db (ustr ''check #Go! and #1 and #ab'') [ustr ''#ab'', ustr ''#Go'']
   \<and> set [ustr ''#ab'', ustr ''#Go''] = {ustr ''#Go'', ustr ''#ab''}
   \<and> distinct [ustr ''#ab'', ustr ''#Go'']"
proof -
  have n: "ustr ''check #Go! and #1 and #ab'' \<noteq> []" "ustr ''#Go'' \<noteq> ustr ''#ab''"
    by (simp_all add: ustr_def)
  have f: "format_hashtags ascii_db (ustr ''check #Go! and #1 and #ab'') [ustr ''#ab'', ustr ''#Go'']"
    unfolding format_hashtags_def list_of_set_def findall_example formatted_example
    using n by (simp add: add_mset_commute)
  show ?thesis
    using f format_hashtags_example [of ascii_db] by blast
qed

text \<open>
  Claim C10. Every element of a list returned by \<open>format_hashtags\<close> is \<open>#\<close> (code point
  35) followed by at least two characters, each an ASCII letter, an ASCII digit or the
  underscore, so a non-ASCII word character matched by \<open>\w\<close> does not stay in a tag; and the
  list has no repeated element.
\<close>

theorem format_hashtags_shape:
  "(\<exists>out. format_hashtags U hashtags out)
   \<and> (\<forall>out. format_hashtags U hashtags out \<longrightarrow>
         list_all (\<lambda>t. t \<noteq> [] \<and> hd t = 35 \<and> 2 \<le> length (tl t)
                       \<and> list_all (\<lambda>c. (97 \<le> c \<and> c \<le> 122) \<or> (65 \<le> c \<and> c \<le> 90)
                                       \<or> (48 \<le> c \<and> c \<le> 57) \<or> c = 95) (tl t)) out
         \<and> distinct out)"
proof -
  have "list_all (\<lambda>t. t \<noteq> [] \<and> hd t = 35 \<and> 2 \<le> length (tl t)
                       \<and> list_all (\<lambda>c. (97 \<le> c \<and> c \<le> 122) \<or> (65 \<le> c \<and> c \<le> 90)
                                       \<or> (48 \<le> c \<and> c \<le> 57) \<or> c = 95) (tl t)) out
         \<and> distinct out"
    if "format_hashtags U hashtags out" for out
  proof -
    from format_hashtags_set [OF that]
    have s: "set out = set (formatted (findall_hashtag U hashtags))" and d: "distinct out"
      by simp_all
    have "list_all (\<lambda>t. t \<noteq> [] \<and> hd t = 35 \<and> 2 \<le> length (tl t) \<and> list_all ascii_word (tl t)) out"
      using formatted_shape [of "findall_hashtag U hashtags"] s by (simp add: list_all_iff)
    then show ?thesis
      using d by (simp add: list_all_iff ascii_word_def)
  qed
  then show ?thesis
    using format_hashtags_returns by blast
qed

text \<open>
  With a table in which e-acute (233) is alphanumeric, "#caf" with e-acute is matched twice and both
  matches become "#caf"; "#x" is matched and dropped.
\<close>

theorem format_hashtags_shape_witness:
  "findall_hashtag (ascii_db\<lparr>uni_alnum := (\<lambda>c. c = 233)\<rparr>)
       (ustr ''#caf'' @ [233] @ ustr '' #caf'' @ [233] @ ustr '' #ok #x'')
     = [ustr ''#caf'' @ [233], ustr ''#caf'' @ [233], ustr ''#ok'', ustr ''#x'']
   \<and> format_hashtags (ascii_db\<lparr>uni_alnum := (\<lambda>c. c = 233)\<rparr>)
       (ustr ''#caf'' @ [233] @ ustr '' #caf'' @ [233] @ ustr '' #ok #x'')
       [ustr ''#ok'', ustr ''#caf'']
   \<and> list_all (\<lambda>t. t \<noteq> [] \<and> hd t = 35 \<and> 2 \<le> length (tl t)
                       \<and> list_all (\<lambda>c. (97 \<le> c \<and> c \<le> 122) \<or> (65 \<le> c \<and> c \<le> 90)
                                       \<or> (48 \<le> c \<and> c \<le> 57) \<or> c = 95) (tl t))
         [ustr ''#ok'', ustr ''#caf'']
   \<and> distinct [ustr ''#ok'', ustr ''#caf'']"
proof -
  let ?U = "ascii_db\<lparr>uni_alnum := (\<lambda>c. c = 233)\<rparr>"
  let ?s = "ustr ''#caf'' @ [233] @ ustr '' #caf'' @ [233] @ ustr '' #ok #x''"
  have fa: "findall_hashtag ?U ?s
     = [ustr ''#caf'' @ [233], ustr ''#caf'' @ [233], ustr ''#ok'', ustr ''#x'']"
    by (simp add: ustr_def is_word_def ascii_word_def ascii_db_def)
  have fo: "formatted [ustr ''#caf'' @ [233], ustr ''#caf'' @ [233], ustr ''#ok'', ustr ''#x'']
     = [ustr ''#caf'', ustr ''#caf'', ustr ''#ok'']"
    by (simp add: ustr_def ascii_word_def Let_def)
  have n: "?s \<noteq> []" "ustr ''#caf'' \<noteq> ustr ''#ok''"
    by (simp_all add: ustr_def)
  have f: "format_hashtags ?U ?s [ustr ''#ok'', ustr ''#caf'']"
    unfolding format_hashtags_def list_of_set_def fa fo
    using n by (simp add: add_mset_commute)
  show ?thesis
    using f fa format_hashtags_shape [of ?U ?s] by blast
qed

section \<open>Cleaning twice\<close>

text \<open>
  Claim C6 says \<open>clean_text\<close> is idempotent. The source collapses white space before it
  deletes the characters outside the allow-list, so a deleted character between two spaces
  leaves both: "a ^ b" becomes "a  b" with two spaces, and cleaning that gives "a b".
\<close>

theorem clean_text_not_idempotent:
  "clean_text U (ustr ''a ^ b'') = ustr ''a  b''
   \<and> clean_text U (clean_text U (ustr ''a ^ b'')) = ustr ''a b''
   \<and> clean_text U (clean_text U (ustr ''a ^ b'')) \<noteq> clean_text U (ustr ''a ^ b'')"
proof -
  have s1: "strip (ustr ''a ^ b'') = ustr ''a ^ b''" "strip (ustr ''a  b'') = ustr ''a  b''"
    by (simp_all add: strip_def isspace_def ustr_def)
  have r1: "sub_runs isspace 32 (ustr ''a ^ b'') = ustr ''a ^ b''"
    "sub_runs isspace 32 (ustr ''a  b'') = ustr ''a b''"
    by (simp_all add: isspace_def ustr_def)
  have f1: "filter (allowed U) (ustr ''a ^ b'') = ustr ''a  b''"
    "filter (allowed U) (ustr ''a b'') = ustr ''a b''"
    by (simp_all add: allowed_def allowed_punct_def is_word_def ascii_word_def isspace_def ustr_def)
  have n: "ustr ''a ^ b'' \<noteq> []" "ustr ''a  b'' \<noteq> []" "ustr ''a b'' \<noteq> ustr ''a  b''"
    by (simp_all add: ustr_def)
  have c1: "clean_text U (ustr ''a ^ b'') = ustr ''a  b''"
    unfolding clean_text_def s1 r1 f1 using n by simp
  have c2: "clean_text U (ustr ''a  b'') = ustr ''a b''"
    unfolding clean_text_def s1 r1 f1 using n by simp
  show ?thesis
    unfolding c1 c2 using n by simp
qed

section \<open>Download file names\<close>

lemma digits_small: "n < 10 \<Longrightarrow> digits n = [48 + n]"
  by simp

lemma digits_step: "10 \<le> n \<Longrightarrow> digits n = digits (n div 10) @ [48 + n mod 10]"
  by (subst digits.simps) simp

lemma zero_pad_2:
  assumes "n < 100"
  shows "zero_pad 2 n = [48 + n div 10, 48 + n mod 10]"
proof (cases "n < 10")
  case True
  then show ?thesis
    by (simp add: zero_pad_def digits_small del: digits.simps)
next
  case False
  with assms have "n div 10 < 10" "10 \<le> n"
    by simp_all
  then show ?thesis
    by (simp add: zero_pad_def digits_step digits_small del: digits.simps)
qed

lemma zero_pad_4:
  assumes "1000 \<le> n" and "n \<le> 9999"
  shows "zero_pad 4 n
    = [48 + n div 1000, 48 + n div 100 mod 10, 48 + n div 10 mod 10, 48 + n mod 10]"
proof -
  have a: "10 \<le> n" "10 \<le> n div 10" "10 \<le> n div 10 div 10" "n div 10 div 10 div 10 < 10"
    using assms by simp_all
  have b: "n div 10 div 10 = n div 100" "n div 10 div 10 div 10 = n div 1000"
    by (simp_all add: div_mult2_eq [symmetric])
  have "digits n = [48 + n div 1000, 48 + n div 100 mod 10, 48 + n div 10 mod 10, 48 + n mod 10]"
    using a by (simp add: digits_step digits_small b del: digits.simps)
  then show ?thesis
    by (simp add: zero_pad_def del: digits.simps)
qed

lemma strftime_shape:
  assumes "1000 \<le> year t" "year t \<le> 9999" "month t < 100" "day t < 100"
    "hour t < 100" "minute t < 100" "second t < 100"
  shows "length (strftime t) = 15
     \<and> list_all (\<lambda>c. 48 \<le> c \<and> c \<le> 57) (take 8 (strftime t))
     \<and> strftime t ! 8 = 95
     \<and> list_all (\<lambda>c. 48 \<le> c \<and> c \<le> 57) (drop 9 (strftime t))"
proof -
  have m: "48 + k mod 10 \<le> 57" for k :: nat
    by simp
  have d: "k < 100 \<Longrightarrow> 48 + k div 10 \<le> 57" for k :: nat
    by simp
  have y: "48 + year t div 1000 \<le> 57"
    using assms(2) by simp
  show ?thesis
    using assms m d y
    by (simp add: strftime_def zero_pad_2 zero_pad_4 ustr_def)
qed

lemma set_sub_runs: "set (sub_runs P r s) \<subseteq> insert r {c \<in> set s. \<not> P c}"
proof (induction P r s rule: sub_runs.induct)
  case (1 P r)
  then show ?case by simp
next
  case (2 P r c cs)
  show ?case
  proof (cases "P c")
    case True
    with 2 have "set (sub_runs P r (dropWhile P cs)) \<subseteq> insert r {c \<in> set (dropWhile P cs). \<not> P c}"
      by simp
    with True show ?thesis
      by (auto dest: set_dropWhileD)
  next
    case False
    with 2 show ?thesis by auto
  qed
qed

lemma contains_iff: "contains s h \<longleftrightarrow> (\<exists>a b. s = a @ h @ b)"
proof (induction s)
  case Nil
  then show ?case by auto
next
  case (Cons c cs)
  have "startswith (c # cs) h \<longleftrightarrow> (\<exists>b. c # cs = h @ b)"
    unfolding startswith_def
    by (metis append_eq_conv_conj append_take_drop_id)
  moreover have "(\<exists>a b. c # cs = a @ h @ b) \<longleftrightarrow> (\<exists>b. c # cs = h @ b) \<or> (\<exists>a b. cs = a @ h @ b)"
  proof
    assume "\<exists>a b. c # cs = a @ h @ b"
    then obtain a b where ab: "c # cs = a @ h @ b" by blast
    show "(\<exists>b. c # cs = h @ b) \<or> (\<exists>a b. cs = a @ h @ b)"
    proof (cases a)
      case Nil
      with ab show ?thesis by auto
    next
      case (Cons x a')
      with ab have "cs = a' @ h @ b" by simp
      then show ?thesis by blast
    qed
  next
    assume "(\<exists>b. c # cs = h @ b) \<or> (\<exists>a b. cs = a @ h @ b)"
    then show "\<exists>a b. c # cs = a @ h @ b"
    proof
      assume "\<exists>b. c # cs = h @ b"
      then show ?thesis by (metis append_Nil)
    next
      assume "\<exists>a b. cs = a @ h @ b"
      then obtain a b where "cs = a @ h @ b" by blast
      then have "c # cs = (c # a) @ h @ b" by simp
      then show ?thesis by blast
    qed
  qed
  ultimately show ?case
    using Cons.IH by simp
qed

lemma contains_take: "contains (take n s) h \<Longrightarrow> contains s h"
proof -
  assume "contains (take n s) h"
  then obtain a b where "take n s = a @ h @ b"
    by (auto simp: contains_iff)
  then have "s = a @ h @ (b @ drop n s)"
    by (metis append.assoc append_take_drop_id)
  then show ?thesis
    unfolding contains_iff by blast
qed

lemma hd_sub_runs: "s \<noteq> [] \<Longrightarrow> \<not> P (hd s) \<Longrightarrow> sub_runs P r s \<noteq> [] \<and> hd (sub_runs P r s) = hd s"
  by (cases s) simp_all

lemma sub_runs_single:
  assumes "P r"
  shows "\<not> contains (sub_runs P r s) [r, r]"
  using assms
proof (induction P r s rule: sub_runs.induct)
  case (1 P r)
  then show ?case by simp
next
  case (2 P r c cs)
  show ?case
  proof (cases "P c")
    case True
    let ?d = "dropWhile P cs"
    have ih: "\<not> contains (sub_runs P r ?d) [r, r]"
      using "2.IH" "2.prems" True by simp
    have "\<not> startswith (r # sub_runs P r ?d) [r, r]"
    proof (cases "?d = []")
      case True
      have "sub_runs P r ?d = []"
        unfolding True by simp
      then show ?thesis
        unfolding startswith_def by simp
    next
      case False
      then have "\<not> P (hd ?d)" by (rule hd_dropWhile)
      with False have "sub_runs P r ?d \<noteq> [] \<and> hd (sub_runs P r ?d) = hd ?d"
        by (simp add: hd_sub_runs)
      moreover have "hd ?d \<noteq> r"
        using \<open>\<not> P (hd ?d)\<close> "2.prems" by auto
      ultimately show ?thesis
        by (cases "sub_runs P r ?d") (auto simp: startswith_def)
    qed
    with ih True show ?thesis by simp
  next
    case False
    then have "c \<noteq> r" using "2.prems" by auto
    then have "\<not> startswith (c # sub_runs P r cs) [r, r]"
      by (simp add: startswith_def)
    with "2.IH" "2.prems" False show ?thesis by simp
  qed
qed

lemma lower_ucs4_no_slash:
  assumes "i < length s" and "47 \<notin> set s" and "\<forall>c. 128 \<le> c \<longrightarrow> 47 \<notin> set (uni_lower U c)"
  shows "47 \<notin> set (lower_ucs4 U s i)"
proof -
  from assms(1,2) have "s ! i \<noteq> 47"
    by (metis nth_mem)
  with assms(3) show ?thesis
    by (auto simp: lower_ucs4_def Let_def)
qed

lemma lower_no_slash:
  assumes "47 \<notin> set s" and "\<forall>c. 128 \<le> c \<longrightarrow> 47 \<notin> set (uni_lower U c)"
  shows "47 \<notin> set (lower U s)"
proof
  assume "47 \<in> set (lower U s)"
  then obtain i where "i < length s" "47 \<in> set (lower_ucs4 U s i)"
    by (auto simp: lower_def)
  with assms show False
    using lower_ucs4_no_slash by blast
qed

lemma safe_platform_no_slash:
  assumes "\<forall>c. 128 \<le> c \<longrightarrow> 47 \<notin> set (uni_lower U c)"
  shows "47 \<notin> set (safe_platform U platform)"
  unfolding safe_platform_def using assms by (intro lower_no_slash) auto

lemma safe_topic_chars: "list_all (\<lambda>c. is_word U c \<or> c = 45) (safe_topic U topic)"
proof -
  have "c \<in> set (safe_topic U topic) \<Longrightarrow> is_word U c \<or> c = 45" for c
  proof -
    assume "c \<in> set (safe_topic U topic)"
    then have "c \<in> set (sub_runs (\<lambda>c. c = 45 \<or> isspace c) 45
                (strip (filter (\<lambda>c. is_word U c \<or> isspace c \<or> c = 45) topic)))"
      unfolding safe_topic_def by (rule in_set_takeD)
    then have "c = 45 \<or> (c \<in> set (strip (filter (\<lambda>c. is_word U c \<or> isspace c \<or> c = 45) topic))
        \<and> \<not> (c = 45 \<or> isspace c))"
      using set_sub_runs by fastforce
    then show ?thesis
      using set_strip by fastforce
  qed
  then show ?thesis
    by (simp add: list_all_iff)
qed

lemma safe_topic_hyphens: "\<not> contains (safe_topic U topic) (ustr ''--'')"
proof -
  have "\<not> contains (sub_runs (\<lambda>c. c = 45 \<or> isspace c) 45
                (strip (filter (\<lambda>c. is_word U c \<or> isspace c \<or> c = 45) topic))) [45, 45]"
    by (rule sub_runs_single) simp
  then show ?thesis
    unfolding safe_topic_def by (auto simp: ustr_def dest: contains_take)
qed

lemma safe_topic_no_slash: "47 \<notin> set (safe_topic U topic)"
  using safe_topic_chars [of U topic]
  by (auto simp: list_all_iff is_word_def ascii_word_def)

lemma strftime_no_slash:
  assumes "1000 \<le> year t" "year t \<le> 9999" "month t < 100" "day t < 100"
    "hour t < 100" "minute t < 100" "second t < 100"
  shows "47 \<notin> set (strftime t)"
  using assms by (simp add: strftime_def zero_pad_2 zero_pad_4 ustr_def)

text \<open>
  Claim C8, as amended. For a clock reading with a four-digit year, the file name is
  \<open>social_media_\<close>, the slug, \<open>_\<close>, the platform part, \<open>_\<close>, the timestamp, a dot and
  the file type. The slug is the topic without the characters that are neither word
  characters, white space nor hyphens, then trimmed, with each run of white space and hyphens
  made one hyphen, cut to 30 characters: it has at most 30 characters, all word characters
  or hyphens, and no two hyphens in a row. The platform part is the platform with \<open>/\<close>
  replaced by \<open>_\<close>, lower-cased. The timestamp is eight digits, \<open>_\<close> and six digits.
  The file name has no \<open>/\<close> when the file type has none (and no lower-case mapping of the
  table beyond ASCII produces one).
\<close>

theorem create_download_filename_shape:
  assumes "1000 \<le> year now" and "year now \<le> 9999" and "1 \<le> month now" and "month now \<le> 12"
    and "1 \<le> day now" and "day now \<le> 31" and "hour now < 24" and "minute now < 60"
    and "second now < 60"
  shows "create_download_filename U now topic platform file_type
       = ustr ''social_media_'' @ safe_topic U topic @ ustr ''_'' @ safe_platform U platform
         @ ustr ''_'' @ strftime now @ ustr ''.'' @ file_type
     \<and> safe_topic U topic
       = take 30 (sub_runs (\<lambda>c. c = 45 \<or> isspace c) 45
           (strip (filter (\<lambda>c. is_word U c \<or> isspace c \<or> c = 45) topic)))
     \<and> length (safe_topic U topic) \<le> 30
     \<and> list_all (\<lambda>c. is_word U c \<or> c = 45) (safe_topic U topic)
     \<and> \<not> contains (safe_topic U topic) (ustr ''--'')
     \<and> safe_platform U platform = lower U (map (\<lambda>c. if c = 47 then 95 else c) platform)
     \<and> length (strftime now) = 15
     \<and> list_all (\<lambda>c. 48 \<le> c \<and> c \<le> 57) (take 8 (strftime now))
     \<and> strftime now ! 8 = 95
     \<and> list_all (\<lambda>c. 48 \<le> c \<and> c \<le> 57) (drop 9 (strftime now))
     \<and> (47 \<notin> set file_type \<and> (\<forall>c. 128 \<le> c \<longrightarrow> 47 \<notin> set (uni_lower U c))
          \<longrightarrow> 47 \<notin> set (create_download_filename U now topic platform file_type))"
proof -
  have r: "1000 \<le> year now" "year now \<le> 9999" "month now < 100" "day now < 100"
    "hour now < 100" "minute now < 100" "second now < 100"
    using assms by simp_all
  have a: "create_download_filename U now topic platform file_type
       = ustr ''social_media_'' @ safe_topic U topic @ ustr ''_'' @ safe_platform U platform
         @ ustr ''_'' @ strftime now @ ustr ''.'' @ file_type"
    by (simp add: create_download_filename_def)
  have b: "safe_topic U topic
       = take 30 (sub_runs (\<lambda>c. c = 45 \<or> isspace c) 45
           (strip (filter (\<lambda>c. is_word U c \<or> isspace c \<or> c = 45) topic)))"
    by (simp add: safe_topic_def)
  have c: "length (safe_topic U topic) \<le> 30"
    by (simp add: safe_topic_def)
  have d: "safe_platform U platform = lower U (map (\<lambda>c. if c = 47 then 95 else c) platform)"
    by (simp add: safe_platform_def)
  have e: "47 \<notin> set (create_download_filename U now topic platform file_type)"
    if "47 \<notin> set file_type" and "\<forall>c. 128 \<le> c \<longrightarrow> 47 \<notin> set (uni_lower U c)"
  proof -
    have "47 \<notin> set (ustr ''social_media_'')" "47 \<notin> set (ustr ''_'')" "47 \<notin> set (ustr ''.'')"
      by (simp_all add: ustr_def)
    then show ?thesis
      unfolding a using that safe_topic_no_slash [of U topic] strftime_no_slash [OF r]
        safe_platform_no_slash [of U platform]
      by (simp del: set_append add: set_append)
  qed
  show ?thesis
    using a b c d e strftime_shape [OF r] safe_topic_chars [of U topic] safe_topic_hyphens [of U topic]
    by blast
qed

lemma strftime_example:
  "strftime \<lparr>year = 2024, month = 3, day = 9, hour = 7, minute = 5, second = 0\<rparr>
     = ustr ''20240309_070500''"
  by (simp add: strftime_def zero_pad_2 zero_pad_4 ustr_def)

lemma safe_platform_example: "safe_platform ascii_db (ustr ''Twitter/X'') = ustr ''twitter_x''"
  by (simp add: safe_platform_def lower_no_sigma ustr_def)

lemma safe_topic_cats: "safe_topic ascii_db (ustr ''cats'') = ustr ''cats''"
  by (simp add: safe_topic_def strip_def isspace_def is_word_def ascii_word_def ustr_def)

text \<open>
  Claim C8 as it was stated fails: the file type is copied unchanged, so the file type
  "a/b" puts a \<open>/\<close> into the file name.
\<close>

theorem create_download_filename_shape_counterexample:
  "create_download_filename ascii_db
       \<lparr>year = 2024, month = 3, day = 9, hour = 7, minute = 5, second = 0\<rparr>
       (ustr ''cats'') (ustr ''Twitter/X'') (ustr ''a/b'')
     = ustr ''social_media_cats_twitter_x_20240309_070500.a/b''
   \<and> 47 \<in> set (create_download_filename ascii_db
       \<lparr>year = 2024, month = 3, day = 9, hour = 7, minute = 5, second = 0\<rparr>
       (ustr ''cats'') (ustr ''Twitter/X'') (ustr ''a/b''))"
proof -
  have "create_download_filename ascii_db
       \<lparr>year = 2024, month = 3, day = 9, hour = 7, minute = 5, second = 0\<rparr>
       (ustr ''cats'') (ustr ''Twitter/X'') (ustr ''a/b'')
     = ustr ''social_media_cats_twitter_x_20240309_070500.a/b''"
    unfolding create_download_filename_def strftime_example safe_platform_example safe_topic_cats
    by (simp add: ustr_def)
  then show ?thesis
    by (simp add: ustr_def)
qed

lemma safe_topic_example:
  "safe_topic ascii_db (ustr '' Hello,  World - x! '') = ustr ''Hello-World-x''"
proof -
  have f: "filter (\<lambda>c. is_word ascii_db c \<or> isspace c \<or> c = 45) (ustr '' Hello,  World - x! '')
      = ustr '' Hello  World - x ''"
    by (simp add: is_word_def ascii_word_def isspace_def ustr_def)
  have s: "strip (ustr '' Hello  World - x '') = ustr ''Hello  World - x''"
    by (simp add: strip_def isspace_def ustr_def)
  have r: "sub_runs (\<lambda>c. c = 45 \<or> isspace c) 45 (ustr ''Hello  World - x'') = ustr ''Hello-World-x''"
    by (simp add: isspace_def ustr_def)
  show ?thesis
    unfolding safe_topic_def f s r by (simp add: ustr_def)
qed

text \<open>A topic with punctuation, runs of spaces and a hyphen, on Twitter/X.\<close>

theorem create_download_filename_shape_witness:
  "create_download_filename ascii_db
       \<lparr>year = 2024, month = 3, day = 9, hour = 7, minute = 5, second = 0\<rparr>
       (ustr '' Hello,  World - x! '') (ustr ''Twitter/X'') (ustr ''json'')
     = ustr ''social_media_Hello-World-x_twitter_x_20240309_070500.json''
   \<and> 47 \<notin> set (ustr ''json'')
   \<and> 47 \<notin> set (create_download_filename ascii_db
       \<lparr>year = 2024, month = 3, day = 9, hour = 7, minute = 5, second = 0\<rparr>
       (ustr '' Hello,  World - x! '') (ustr ''Twitter/X'') (ustr ''json''))"
proof -
  let ?now = "\<lparr>year = 2024, month = 3, day = 9, hour = 7, minute = 5, second = 0\<rparr>"
  have v: "create_download_filename ascii_db ?now
       (ustr '' Hello,  World - x! '') (ustr ''Twitter/X'') (ustr ''json'')
     = ustr ''social_media_Hello-World-x_twitter_x_20240309_070500.json''"
    unfolding create_download_filename_def strftime_example safe_platform_example safe_topic_example
    by (simp add: ustr_def)
  have j: "47 \<notin> set (ustr ''json'')"
    by (simp add: ustr_def)
  have u: "\<forall>c. 128 \<le> c \<longrightarrow> 47 \<notin> set (uni_lower ascii_db c)"
    by (simp add: ascii_db_def)
  have p: "1000 \<le> year ?now" "year ?now \<le> 9999" "1 \<le> month ?now" "month ?now \<le> 12"
    "1 \<le> day ?now" "day ?now \<le> 31" "hour ?now < 24" "minute ?now < 60" "second ?now < 60"
    by simp_all
  have "47 \<notin> set (create_download_filename ascii_db ?now
       (ustr '' Hello,  World - x! '') (ustr ''Twitter/X'') (ustr ''json''))"
    using create_download_filename_shape [OF p, where U = ascii_db
        and topic = "ustr '' Hello,  World - x! ''" and platform = "ustr ''Twitter/X''"
        and file_type = "ustr ''json''"] j u
    by blast
  with v j show ?thesis
    by blast
qed

end
